theory Spec2Isabelle
  imports Complex_Main "HOL-Library.Multiset"
begin

section \<open>Conventions of the embedding\<close>

text \<open>
  The repository is a React application of three components: \<open>Quiz\<close>,
  \<open>DoctorOfficeRoom\<close> and \<open>Certificate\<close>, mounted one at a time by \<open>App\<close>.
  Every \<open>useState\<close> cell of a component is a field of a record, every event handler is
  a function from the state before the event to the state after it, and every
  \<open>useEffect\<close> whose body sets state is run after the handler that may have changed its
  dependencies.  A callback prop that a component invokes is a value of the datatype
  \<open>callback\<close>; an \<open>alert\<close> is a value returned beside the new state.

  A JavaScript string is modelled as the list of the bytes of its UTF-8 encoding.  The
  program compares strings for equality, concatenates them, serialises them with
  \<open>JSON.stringify\<close> and trims white space; all four are determined by that encoding.
  Fields that are only displayed and never read by a handler (question and prompt texts,
  titles, page bodies, the labels of the chart rows) are left out of the records.
\<close>

definition rsquo :: string where
  \<comment> \<open>U+2019, the typographic apostrophe of several answer texts, in UTF-8\<close>
  "rsquo = [CHR 0xE2, CHR 0x80, CHR 0x99]"

section \<open>The Fisher-Yates shuffle\<close>

text \<open>
  \<open>shuffle\<close> copies its argument and, for \<open>i\<close> from \<open>length - 1\<close> down to \<open>1\<close>,
  swaps \<open>a[i]\<close> with \<open>a[j]\<close> where \<open>j = Math.floor(Math.random() * (i + 1))\<close>.
  The random source is the sequence \<open>rng\<close> of the values that successive calls of
  \<open>Math.random()\<close> return, starting at the call of \<open>shuffle\<close>; \<open>Math.random()\<close>
  promises a value in \<open>[0, 1)\<close>, which is \<open>unit_rng\<close>.  The counter \<open>k\<close> is the number
  of values drawn so far.  The destructuring swap reads both elements before it writes.

  The values of \<open>rng\<close> are real numbers and the product \<open>rng k * (i + 1)\<close> is the exact
  one; the code multiplies doubles and takes the floor of the rounded product.  Both
  give an index in \<open>0..i\<close>.  They give the same index unless the exact product lies
  within one rounding step below an integer; the draws used in the examples below
  (\<open>0\<close> and \<open>0.9\<close>) are not of that kind.
\<close>

definition unit_rng :: "(nat \<Rightarrow> real) \<Rightarrow> bool" where
  "unit_rng rng = (\<forall>k. 0 \<le> rng k \<and> rng k < 1)"

fun shuffle_loop :: "(nat \<Rightarrow> real) \<Rightarrow> nat \<Rightarrow> nat \<Rightarrow> 'a list \<Rightarrow> 'a list" where
  "shuffle_loop rng k 0 a = a"
| "shuffle_loop rng k (Suc n) a =
     (let i = Suc n;
          j = nat \<lfloor>rng k * real (i + 1)\<rfloor>
      in shuffle_loop rng (Suc k) n (a[i := a ! j, j := a ! i]))"

definition shuffle :: "(nat \<Rightarrow> real) \<Rightarrow> 'a list \<Rightarrow> 'a list" where
  "shuffle rng arr = shuffle_loop rng 0 (length arr - 1) arr"

definition after_draws :: "nat \<Rightarrow> (nat \<Rightarrow> real) \<Rightarrow> (nat \<Rightarrow> real)" where
  \<comment> \<open>the random source once \<open>n\<close> values have been drawn from it\<close>
  "after_draws n rng = (\<lambda>k. rng (k + n))"

section \<open>The Quiz component\<close>

record MCQ =
  choices :: "string list"
  correct :: string

definition MCQS :: "MCQ list" where
  "MCQS =
    [\<lparr>choices =
        [''Verify two patient identifiers (e.g., full name and DOB).'',
         ''Ask for the insurance group number.'',
         ''Place the caller on hold and transfer to billing.'',
         ''Confirm the provider'' @ rsquo @ ''s NPI.''],
      correct = ''Verify two patient identifiers (e.g., full name and DOB).''\<rparr>,
     \<lparr>choices =
        [''There is a valid authorization or documented permission allowing spouse access.'',
         ''That the spouse knows the last visit date.'',
         ''That the spouse is listed as emergency contact for billing.'',
         ''That the spouse can pick up any records they want.''],
      correct =
        ''There is a valid authorization or documented permission allowing spouse access.''\<rparr>,
     \<lparr>choices =
        [''Confirm scope & delivery, verify ID/authorization, and follow policy timelines.'',
         ''Email everything immediately to be helpful.'',
         ''Decline all email requests for security reasons.'',
         ''Send only the problem list without documentation.''],
      correct =
        ''Confirm scope & delivery, verify ID/authorization, and follow policy timelines.''\<rparr>,
     \<lparr>choices =
        [''Disclose only what'' @ rsquo @ ''s needed to fulfill the stated purpose.'',
         ''Provide the entire chart for convenience.'',
         ''Refuse all disclosures unless in person.'',
         ''Share everything if the caller states it'' @ rsquo @ ''s urgent.''],
      correct = ''Disclose only what'' @ rsquo @ ''s needed to fulfill the stated purpose.''\<rparr>]"

definition CORRECT_ORDER :: "string list" where
  "CORRECT_ORDER =
    [''Verify patient identity (two identifiers).'',
     ''Confirm authorization/permission is valid.'',
     ''Clarify request scope & preferred delivery method.'',
     ''Process request (fees/timelines per policy).'',
     ''Log disclosure per policy.'']"

subsection \<open>\<open>JSON.stringify\<close> on an array of strings\<close>

text \<open>
  The order check compares \<open>JSON.stringify(order)\<close> with
  \<open>JSON.stringify(CORRECT_ORDER)\<close>.  On an array of strings the built-in writes
  \<open>[\<close>, the quoted elements separated by commas, and \<open>]\<close>; quoting a string puts it
  between double quotes and escapes the double quote, the backslash and the control
  characters below U+0020 (\<open>\b \t \n \f \r\<close>, and \<open>\u00xx\<close> in lower-case hexadecimal
  for the others).  Every other character is written as it is.
\<close>

definition hexdigit :: "nat \<Rightarrow> char" where
  "hexdigit n = (if n < 10 then char_of (48 + n) else char_of (87 + n))"

definition JSON_quote_char :: "char \<Rightarrow> string" where
  "JSON_quote_char c =
    (if c = CHR 0x08 then [CHR 0x5C, CHR ''b'']
     else if c = CHR 0x09 then [CHR 0x5C, CHR ''t'']
     else if c = CHR 0x0A then [CHR 0x5C, CHR ''n'']
     else if c = CHR 0x0C then [CHR 0x5C, CHR ''f'']
     else if c = CHR 0x0D then [CHR 0x5C, CHR ''r'']
     else if c = CHR 0x22 then [CHR 0x5C, CHR 0x22]
     else if c = CHR 0x5C then [CHR 0x5C, CHR 0x5C]
     else if (of_char c :: nat) < 32 then
       [CHR 0x5C, CHR ''u'', CHR ''0'', CHR ''0'',
        hexdigit ((of_char c :: nat) div 16), hexdigit ((of_char c :: nat) mod 16)]
     else [c])"

definition JSON_quote :: "string \<Rightarrow> string" where
  "JSON_quote s = CHR 0x22 # concat (map JSON_quote_char s) @ [CHR 0x22]"

fun join_commas :: "string list \<Rightarrow> string" where
  "join_commas [] = []"
| "join_commas [x] = x"
| "join_commas (x # y # ys) = x @ CHR '','' # join_commas (y # ys)"

definition JSON_stringify :: "string list \<Rightarrow> string" where
  "JSON_stringify xs = CHR ''['' # join_commas (map JSON_quote xs) @ [CHR '']'']"

subsection \<open>State and handlers\<close>

text \<open>
  \<open>step\<close> is the page of the quiz: \<open>0..3\<close> are the multiple-choice questions, \<open>4\<close> is
  the reorder task, \<open>5\<close> the summary.  \<open>order\<close> starts at \<open>randomizedStart\<close>, which
  shuffles \<open>CORRECT_ORDER\<close> and, when the result is \<open>CORRECT_ORDER\<close> again, shuffles
  once more.  A shuffle of five items draws four random values, so the second shuffle
  reads the source after four draws.
\<close>

record quiz_state =
  step :: nat
  score :: nat
  selected :: "string option"
  order :: "string list"

datatype js_error = TypeError

text \<open>
  The callbacks the components receive from \<open>App\<close>, with the arguments they are called
  with.  \<open>Quiz\<close> calls \<open>onComplete(score)\<close> and \<open>DoctorOfficeRoom\<close> calls \<open>onFinish()\<close>.
  \<open>Certificate\<close> gives \<open>onDone\<close> to its button as the click handler, so \<open>onDone\<close> is
  called with the event object of the click.  The event is made by the browser, not by
  the component; of its fields the embedding keeps the time and the position of the
  click.
\<close>

record MouseEvent =
  timeStamp :: nat
  clientX :: int
  clientY :: int

datatype callback = onComplete nat | onFinish | onDone MouseEvent

definition randomizedStart :: "(nat \<Rightarrow> real) \<Rightarrow> string list" where
  "randomizedStart rng =
     (let start = shuffle rng CORRECT_ORDER
      in if JSON_stringify start = JSON_stringify CORRECT_ORDER
         then shuffle (after_draws (length CORRECT_ORDER - 1) rng) CORRECT_ORDER
         else start)"

definition quiz_init :: "(nat \<Rightarrow> real) \<Rightarrow> quiz_state" where
  "quiz_init rng = \<lparr>step = 0, score = 0, selected = None, order = randomizedStart rng\<rparr>"

definition isOrderCorrect :: "quiz_state \<Rightarrow> bool" where
  "isOrderCorrect st = (JSON_stringify (order st) = JSON_stringify CORRECT_ORDER)"

text \<open>
  \<open>moveUp\<close> and \<open>moveDown\<close> are called with the index of a rendered list item, so with
  \<open>idx < length order\<close>; \<open>quiz_step\<close> below dispatches them only then.
\<close>

definition moveUp :: "nat \<Rightarrow> quiz_state \<Rightarrow> quiz_state" where
  "moveUp idx st =
     (if idx = 0 then st
      else let a = order st
           in st\<lparr>order := a[idx - 1 := a ! idx, idx := a ! (idx - 1)]\<rparr>)"

definition moveDown :: "nat \<Rightarrow> quiz_state \<Rightarrow> quiz_state" where
  "moveDown idx st =
     (if int idx = int (length (order st)) - 1 then st
      else let a = order st
           in st\<lparr>order := a[idx := a ! (idx + 1), idx + 1 := a ! idx]\<rparr>)"

text \<open>
  \<open>submitMCQ\<close> returns at once when nothing is selected.  Otherwise it reads
  \<open>MCQS[step].correct\<close>, which throws a \<open>TypeError\<close> when \<open>step\<close> is not an index of
  \<open>MCQS\<close>, before any state is set.
\<close>

definition submitMCQ :: "quiz_state \<Rightarrow> js_error + quiz_state" where
  "submitMCQ st =
     (case selected st of
        None \<Rightarrow> Inr st
      | Some sel \<Rightarrow>
          if step st \<ge> length MCQS then Inl TypeError
          else
            let isCorrect = (sel = correct (MCQS ! step st));
                st1 = (if isCorrect then st\<lparr>score := score st + 1\<rparr> else st);
                st2 = st1\<lparr>selected := None\<rparr>
            in if step st < length MCQS - 1
               then Inr (st2\<lparr>step := step st + 1\<rparr>)
               else Inr (st2\<lparr>step := length MCQS\<rparr>))"

definition submitReorder :: "quiz_state \<Rightarrow> quiz_state" where
  "submitReorder st = (if \<not> isOrderCorrect st then st else st\<lparr>step := length MCQS + 1\<rparr>)"

text \<open>
  What the learner can do on each page.  On a question page (\<open>step \<le> 3\<close>) the radio
  buttons are the shuffled choices of the question and the submit button is disabled
  while nothing is selected; on the reorder page (\<open>step = 4\<close>) every item has its two
  move buttons and the finish button is disabled until the order is correct; the
  summary page has one button, which calls \<open>onComplete(score)\<close>.  An event that the
  current page does not offer leaves the state as it is.
\<close>

datatype quiz_event =
    Select string
  | SubmitMCQ
  | MoveUp nat
  | MoveDown nat
  | SubmitReorder
  | Enter

definition quiz_step :: "quiz_event \<Rightarrow> quiz_state \<Rightarrow> quiz_state \<times> callback option" where
  "quiz_step e st =
     (if step st + 1 \<le> length MCQS then
        (case e of
           Select c \<Rightarrow>
             if c \<in> set (choices (MCQS ! step st)) then (st\<lparr>selected := Some c\<rparr>, None)
             else (st, None)
         | SubmitMCQ \<Rightarrow>
             if selected st = None then (st, None)
             else (case submitMCQ st of Inl err \<Rightarrow> (st, None) | Inr st' \<Rightarrow> (st', None))
         | _ \<Rightarrow> (st, None))
      else if step st = length MCQS then
        (case e of
           MoveUp idx \<Rightarrow> if idx < length (order st) then (moveUp idx st, None) else (st, None)
         | MoveDown idx \<Rightarrow> if idx < length (order st) then (moveDown idx st, None) else (st, None)
         | SubmitReorder \<Rightarrow> if isOrderCorrect st then (submitReorder st, None) else (st, None)
         | _ \<Rightarrow> (st, None))
      else
        (case e of
           Enter \<Rightarrow> (st, Some (onComplete (score st)))
         | _ \<Rightarrow> (st, None)))"

fun quiz_run :: "quiz_event list \<Rightarrow> quiz_state \<Rightarrow> quiz_state \<times> callback list" where
  "quiz_run [] st = (st, [])"
| "quiz_run (e # es) st =
     (let (st', cb) = quiz_step e st;
          (st'', cbs) = quiz_run es st'
      in (st'', (case cb of None \<Rightarrow> [] | Some c \<Rightarrow> [c]) @ cbs))"

section \<open>The DoctorOfficeRoom component\<close>

subsection \<open>Data\<close>

definition DISTRACTOR_POOL :: "string list" where
  "DISTRACTOR_POOL =
    [''Missing signature date'',
     ''Wrong patient name'',
     ''Wrong MRN'',
     ''No valid authorization for spouse'',
     ''DOB mismatch vs. request'',
     ''Scope exceeds authorization'']"

definition callSteps :: "MCQ list" where
  "callSteps =
    [\<lparr>choices =
        [''Verify two identifiers (name + DOB).'',
         ''Ask what records they want before identifying them.'',
         ''Put caller on hold immediately.''],
      correct = ''Verify two identifiers (name + DOB).''\<rparr>,
     \<lparr>choices =
        [''Authorization on file or signed ROI allowing spouse access.'',
         ''Insurance group number.'',
         ''The provider'' @ rsquo @ ''s NPI.''],
      correct = ''Authorization on file or signed ROI allowing spouse access.''\<rparr>,
     \<lparr>choices =
        [''Confirm scope & delivery method, review ID/authorization, and give timeline following policy.'',
         ''Say you'' @ rsquo @ ''ll email anything they want right now.'',
         ''Decline all requests over the phone.''],
      correct =
        ''Confirm scope & delivery method, review ID/authorization, and give timeline following policy.''\<rparr>]"

record CodingCase =
  cc_id :: string
  cc_choices :: "string list"
  cc_correct :: string

text \<open>
  \<open>codingCases\<close> is computed once: the choices of each of the four cases are shuffled
  (two draws each, in the order the array literal is written), then the four cases are.
\<close>

definition codingCases :: "(nat \<Rightarrow> real) \<Rightarrow> CodingCase list" where
  "codingCases rng =
     (let base =
        [\<lparr>cc_id = ''A1'',
          cc_choices = shuffle rng [''99213 + I10'', ''99203 + J06.9'', ''99214 + E11.9''],
          cc_correct = ''99213 + I10''\<rparr>,
         \<lparr>cc_id = ''A2'',
          cc_choices =
            shuffle (after_draws 2 rng) [''99213 + I10'', ''99203 + J06.9'', ''99212 + Z76.0''],
          cc_correct = ''99213 + I10''\<rparr>,
         \<lparr>cc_id = ''B1'',
          cc_choices =
            shuffle (after_draws 4 rng) [''99203 + J06.9'', ''99213 + I10'', ''99204 + J45.909''],
          cc_correct = ''99203 + J06.9''\<rparr>,
         \<lparr>cc_id = ''B2'',
          cc_choices =
            shuffle (after_draws 6 rng) [''99203 + J06.9'', ''99214 + J06.9'', ''99212 + Z20.822''],
          cc_correct = ''99203 + J06.9''\<rparr>]
      in shuffle (after_draws 8 rng) base)"

record ChartRow =
  row_id :: string
  isDefect :: bool

definition charts_base :: "ChartRow list" where
  \<comment> \<open>the array \<open>base\<close> inside \<open>charts\<close>\<close>
  "charts_base =
    [\<lparr>row_id = ''1'', isDefect = False\<rparr>,
     \<lparr>row_id = ''2'', isDefect = False\<rparr>,
     \<lparr>row_id = ''3'', isDefect = True\<rparr>,
     \<lparr>row_id = ''4'', isDefect = False\<rparr>,
     \<lparr>row_id = ''5'', isDefect = True\<rparr>,
     \<lparr>row_id = ''6'', isDefect = False\<rparr>,
     \<lparr>row_id = ''7'', isDefect = False\<rparr>,
     \<lparr>row_id = ''8'', isDefect = False\<rparr>,
     \<lparr>row_id = ''9'', isDefect = False\<rparr>,
     \<lparr>row_id = ''10'', isDefect = False\<rparr>]"

definition charts :: "(nat \<Rightarrow> real) \<Rightarrow> ChartRow list" where
  "charts rng = shuffle rng charts_base"

record Page =
  page_id :: string

record Issue =
  issue_id :: string
  pageId :: string
  issue_label :: string

record ChartDoc =
  doc_id :: string
  pages :: "Page list"
  issues :: "Issue list"

definition chartDocs :: "ChartDoc list" where
  "chartDocs =
    [\<lparr>doc_id = ''D1'',
      pages = [\<lparr>page_id = ''p1''\<rparr>, \<lparr>page_id = ''p2''\<rparr>, \<lparr>page_id = ''p3''\<rparr>],
      issues =
        [\<lparr>issue_id = ''i1'', pageId = ''p3'', issue_label = ''Missing provider signature''\<rparr>]\<rparr>,
     \<lparr>doc_id = ''D2'',
      pages = [\<lparr>page_id = ''p1''\<rparr>, \<lparr>page_id = ''p2''\<rparr>],
      issues =
        [\<lparr>issue_id = ''i1'', pageId = ''p2'',
          issue_label = ''No valid authorization for spouse''\<rparr>]\<rparr>,
     \<lparr>doc_id = ''D3'',
      pages = [\<lparr>page_id = ''p1''\<rparr>, \<lparr>page_id = ''p2''\<rparr>],
      issues =
        [\<lparr>issue_id = ''i1'', pageId = ''p1'', issue_label = ''DOB mismatch vs. request''\<rparr>]\<rparr>,
     \<lparr>doc_id = ''D4'',
      pages = [\<lparr>page_id = ''p1''\<rparr>, \<lparr>page_id = ''p2''\<rparr>],
      issues =
        [\<lparr>issue_id = ''i1'', pageId = ''p2'', issue_label = ''Missing signature date''\<rparr>]\<rparr>,
     \<lparr>doc_id = ''D5'',
      pages = [\<lparr>page_id = ''p1''\<rparr>, \<lparr>page_id = ''p2''\<rparr>, \<lparr>page_id = ''p3''\<rparr>],
      issues =
        [\<lparr>issue_id = ''i1'', pageId = ''p3'',
          issue_label = ''Missing supervising MD countersignature''\<rparr>]\<rparr>]"

subsection \<open>State\<close>

text \<open>
  The cells that only drive sound, hints and animation (\<open>ringing\<close>, \<open>showHints\<close>,
  \<open>showPhoneHint\<close> and the two audio references) are read by no handler of an exercise
  and are left out.
\<close>

record room_state =
  callAnswered :: bool
  callComplete :: bool
  codingOpen :: bool
  auditOpen :: bool
  codingDone :: bool
  auditDone :: bool
  callIndex :: nat
  callSelected :: "string option"
  codingAnswers :: "string \<rightharpoonup> string"
  auditSelected :: "string list"
  openDoc :: "ChartDoc option"
  docPage :: nat
  pageSelections :: "string \<rightharpoonup> string"
  foundIssues :: "string list"

definition room_init :: room_state where
  "room_init =
    \<lparr>callAnswered = False, callComplete = False, codingOpen = False, auditOpen = False,
     codingDone = False, auditDone = False, callIndex = 0, callSelected = None,
     codingAnswers = Map.empty, auditSelected = [], openDoc = None, docPage = 0,
     pageSelections = Map.empty, foundIssues = []\<rparr>"

datatype alert =
    NotQuiteTryAgain
      \<comment> \<open>"Not quite -- try again!"\<close>
  | SelectExactlyTwo
      \<comment> \<open>"Select exactly TWO charts you believe are defective."\<close>
  | NotQuiteReview
      \<comment> \<open>"Not quite -- review the list and try again!"\<close>
  | NowOpenCharts
      \<comment> \<open>"Nice! Now open a few sample charts below and correctly identify at least 3
         page issues."\<close>

subsection \<open>The phone call\<close>

text \<open>
  \<open>callStep\<close> is \<open>callSteps[callIndex]\<close>.  The index only grows in \<open>submitCall\<close>, and
  only while it is below the last index, so it is an index of \<open>callSteps\<close> in every state
  the component reaches (lemma \<open>room_run_inv\<close>).  \<open>!callSelected\<close> holds for \<open>null\<close>
  and for the empty string.
\<close>

definition callStep :: "room_state \<Rightarrow> MCQ" where
  "callStep st = callSteps ! callIndex st"

definition submitCall :: "room_state \<Rightarrow> alert option \<times> room_state" where
  "submitCall st =
     (if callSelected st = None \<or> callSelected st = Some [] then (None, st)
      else if callSelected st \<noteq> Some (correct (callStep st)) then (Some NotQuiteTryAgain, st)
      else if callIndex st < length callSteps - 1
        then (None, st\<lparr>callIndex := callIndex st + 1, callSelected := None\<rparr>)
        else (None, st\<lparr>callComplete := True\<rparr>))"

subsection \<open>The coding binder\<close>

definition setCodingAnswers :: "string \<Rightarrow> string \<Rightarrow> room_state \<Rightarrow> room_state" where
  \<comment> \<open>\<open>setCodingAnswers((prev) => ({ ...prev, [c.id]: ch }))\<close>\<close>
  "setCodingAnswers cid ch st = st\<lparr>codingAnswers := (codingAnswers st)(cid \<mapsto> ch)\<rparr>"

definition codingAllCorrect :: "CodingCase list \<Rightarrow> room_state \<Rightarrow> bool" where
  "codingAllCorrect cases st =
     (length cases > 0 \<and>
      list_all (\<lambda>c. codingAnswers st (cc_id c) = Some (cc_correct c)) cases)"

definition coding_effect :: "CodingCase list \<Rightarrow> room_state \<Rightarrow> room_state" where
  \<comment> \<open>the effect \<open>if (codingAllCorrect && codingOpen) setCodingDone(true)\<close>\<close>
  "coding_effect cases st =
     (if codingAllCorrect cases st \<and> codingOpen st then st\<lparr>codingDone := True\<rparr> else st)"

subsection \<open>The chart audit\<close>

definition toggleAudit :: "string \<Rightarrow> room_state \<Rightarrow> room_state" where
  "toggleAudit i st =
     (let prev = auditSelected st
      in st\<lparr>auditSelected := (if i \<in> set prev then filter (\<lambda>x. x \<noteq> i) prev else prev @ [i])\<rparr>)"

definition handleAuditCheck :: "ChartRow list \<Rightarrow> room_state \<Rightarrow> alert option \<times> room_state" where
  "handleAuditCheck chs st =
     (let picked = filter (\<lambda>c. row_id c \<in> set (auditSelected st)) chs
      in if length picked \<noteq> 2 then (Some SelectExactlyTwo, st)
         else let bothCorrect = list_all isDefect picked
              in if \<not> bothCorrect then (Some NotQuiteReview, st)
                 else if length (foundIssues st) < 3 then (Some NowOpenCharts, st)
                 else (None, st\<lparr>auditDone := True\<rparr>))"

text \<open>
  The room is finished when the call, the binder and the audit are done; an effect then
  calls \<open>onFinish\<close> after a delay.
\<close>

definition allTasksDone :: "room_state \<Rightarrow> bool" where
  "allTasksDone st = (callComplete st \<and> codingDone st \<and> auditDone st)"

subsection \<open>The document viewer\<close>

text \<open>
  The viewer shows page \<open>docPage\<close> of \<open>openDoc\<close>.  On every render it computes the key of
  the page, the page's real issue (the first issue of the document on that page, if
  any), the value that counts as correct, and three radio options: a distractor label is
  the first element of the shuffled pool without the real issue's label, and the three
  options are shuffled.  The first shuffle draws one value less than the filtered pool
  has elements; the second reads the source after them.
\<close>

record RadioOption =
  opt_label :: string
  opt_value :: string

definition pageKey :: "ChartDoc \<Rightarrow> Page \<Rightarrow> string" where
  "pageKey doc pg = doc_id doc @ '':'' @ page_id pg"

definition realIssue :: "ChartDoc \<Rightarrow> Page \<Rightarrow> Issue option" where
  "realIssue doc pg = find (\<lambda>i. pageId i = page_id pg) (issues doc)"

definition correctValue :: "ChartDoc \<Rightarrow> Page \<Rightarrow> string" where
  "correctValue doc pg =
     (case realIssue doc pg of
        Some i \<Rightarrow> doc_id doc @ '':'' @ issue_id i
      | None \<Rightarrow> doc_id doc @ '':'' @ page_id pg @ '':none'')"

definition noIssuesOption :: "ChartDoc \<Rightarrow> Page \<Rightarrow> RadioOption" where
  "noIssuesOption doc pg =
     \<lparr>opt_label = ''No issues on this page'',
      opt_value = doc_id doc @ '':'' @ page_id pg @ '':none''\<rparr>"

definition distractor_candidates :: "ChartDoc \<Rightarrow> Page \<Rightarrow> string list" where
  \<comment> \<open>\<open>DISTRACTOR_POOL.filter((l) => l !== realIssue?.label)\<close>\<close>
  "distractor_candidates doc pg =
     filter (\<lambda>l. Some l \<noteq> map_option issue_label (realIssue doc pg)) DISTRACTOR_POOL"

definition distractorLabel :: "(nat \<Rightarrow> real) \<Rightarrow> ChartDoc \<Rightarrow> Page \<Rightarrow> string" where
  "distractorLabel rng doc pg =
     (case shuffle rng (distractor_candidates doc pg) of
        [] \<Rightarrow> ''Scope exceeds authorization''
      | l # ls \<Rightarrow> if l = [] then ''Scope exceeds authorization'' else l)"

definition fakeOption :: "(nat \<Rightarrow> real) \<Rightarrow> ChartDoc \<Rightarrow> Page \<Rightarrow> RadioOption" where
  "fakeOption rng doc pg =
     \<lparr>opt_label = distractorLabel rng doc pg,
      opt_value = doc_id doc @ '':'' @ page_id pg @ '':fake''\<rparr>"

definition realOption :: "ChartDoc \<Rightarrow> Page \<Rightarrow> RadioOption option" where
  "realOption doc pg =
     (case realIssue doc pg of
        Some i \<Rightarrow> Some \<lparr>opt_label = issue_label i, opt_value = doc_id doc @ '':'' @ issue_id i\<rparr>
      | None \<Rightarrow> None)"

definition baseOptions :: "(nat \<Rightarrow> real) \<Rightarrow> ChartDoc \<Rightarrow> Page \<Rightarrow> RadioOption list" where
  "baseOptions rng doc pg =
     (case realOption doc pg of
        Some ro \<Rightarrow> [noIssuesOption doc pg, ro, fakeOption rng doc pg]
      | None \<Rightarrow>
          [noIssuesOption doc pg, fakeOption rng doc pg,
           \<lparr>opt_label = ''Wrong MRN'',
            opt_value = doc_id doc @ '':'' @ page_id pg @ '':fake2''\<rparr>])"

definition options :: "(nat \<Rightarrow> real) \<Rightarrow> ChartDoc \<Rightarrow> Page \<Rightarrow> RadioOption list" where
  "options rng doc pg =
     shuffle (after_draws (length (distractor_candidates doc pg) - 1) rng)
       (baseOptions rng doc pg)"

definition selectOption :: "ChartDoc \<Rightarrow> Page \<Rightarrow> RadioOption \<Rightarrow> room_state \<Rightarrow> room_state" where
  \<comment> \<open>the \<open>onChange\<close> of the radio button of \<open>opt\<close>\<close>
  "selectOption doc pg opt st =
     st\<lparr>pageSelections := (pageSelections st)(pageKey doc pg \<mapsto> opt_value opt),
        foundIssues :=
          (let withoutThisPage = filter (\<lambda>k. k \<noteq> pageKey doc pg) (foundIssues st)
           in if opt_value opt = correctValue doc pg
              then withoutThisPage @ [pageKey doc pg]
              else withoutThisPage)\<rparr>"

subsection \<open>The events of the room\<close>

text \<open>
  An event is a click on a control, and a control exists only while the block that
  renders it does: the phone while the call is not answered; the call question between
  answering and completing the call; the two hotspots once the call is complete; the
  controls of a modal while it is open (the submit button of the audit until the audit
  is done); the viewer while a document is open, with \<open>Prev\<close> disabled on the first
  page and \<open>Next\<close> on the last.  The radio buttons of the viewer are the options of
  the current render, so the event names the random source of that render and the
  position of the option clicked; the viewer renders page \<open>docPage\<close> of the open
  document, which is a page of it in every state the room reaches (lemma
  \<open>room_run_inv\<close>).  An event whose control is not there leaves the state as it
  is.  The session fixes the shuffled cases \<open>cases\<close> and chart rows \<open>chs\<close>.
\<close>

datatype room_event =
    AnswerPhone
  | SelectCall string
  | SubmitCall
  | OpenCoding
  | CloseCoding
  | AnswerCoding string string
  | OpenAudit
  | CloseAudit
  | ToggleAudit string
  | AuditCheck
  | OpenDoc ChartDoc
  | CloseDoc
  | PrevPage
  | NextPage
  | SelectOption "nat \<Rightarrow> real" nat

definition room_handle ::
  "CodingCase list \<Rightarrow> ChartRow list \<Rightarrow> room_event \<Rightarrow> room_state \<Rightarrow> room_state" where
  "room_handle cases chs e st =
     (case e of
        AnswerPhone \<Rightarrow> if \<not> callAnswered st then st\<lparr>callAnswered := True\<rparr> else st
      | SelectCall c \<Rightarrow>
          if callAnswered st \<and> \<not> callComplete st \<and> c \<in> set (choices (callStep st))
          then st\<lparr>callSelected := Some c\<rparr> else st
      | SubmitCall \<Rightarrow>
          if callAnswered st \<and> \<not> callComplete st then snd (submitCall st) else st
      | OpenCoding \<Rightarrow> if callComplete st then st\<lparr>codingOpen := True\<rparr> else st
      | CloseCoding \<Rightarrow> if codingOpen st then st\<lparr>codingOpen := False\<rparr> else st
      | AnswerCoding cid ch \<Rightarrow>
          if codingOpen st \<and> list_ex (\<lambda>c. cc_id c = cid \<and> ch \<in> set (cc_choices c)) cases
          then setCodingAnswers cid ch st else st
      | OpenAudit \<Rightarrow> if callComplete st then st\<lparr>auditOpen := True\<rparr> else st
      | CloseAudit \<Rightarrow> if auditOpen st then st\<lparr>auditOpen := False\<rparr> else st
      | ToggleAudit i \<Rightarrow>
          if auditOpen st \<and> i \<in> set (map row_id chs) then toggleAudit i st else st
      | AuditCheck \<Rightarrow>
          if auditOpen st \<and> \<not> auditDone st then snd (handleAuditCheck chs st) else st
      | OpenDoc d \<Rightarrow>
          if auditOpen st \<and> d \<in> set chartDocs then st\<lparr>openDoc := Some d, docPage := 0\<rparr>
          else st
      | CloseDoc \<Rightarrow> if openDoc st \<noteq> None then st\<lparr>openDoc := None\<rparr> else st
      | PrevPage \<Rightarrow>
          if openDoc st \<noteq> None \<and> docPage st \<noteq> 0
          then st\<lparr>docPage := nat (max 0 (int (docPage st) - 1))\<rparr> else st
      | NextPage \<Rightarrow>
          (case openDoc st of
             None \<Rightarrow> st
           | Some d \<Rightarrow>
               if int (docPage st) \<noteq> int (length (pages d)) - 1
               then st\<lparr>docPage := nat (min (int (length (pages d)) - 1) (int (docPage st) + 1))\<rparr>
               else st)
      | SelectOption rng n \<Rightarrow>
          (case openDoc st of
             None \<Rightarrow> st
           | Some d \<Rightarrow>
               if docPage st < length (pages d) \<and> n < length (options rng d (pages d ! docPage st))
               then selectOption d (pages d ! docPage st)
                      (options rng d (pages d ! docPage st) ! n) st
               else st))"

definition room_step ::
  "CodingCase list \<Rightarrow> ChartRow list \<Rightarrow> room_event \<Rightarrow> room_state \<Rightarrow> room_state" where
  "room_step cases chs e st = coding_effect cases (room_handle cases chs e st)"

fun room_run ::
  "CodingCase list \<Rightarrow> ChartRow list \<Rightarrow> room_event list \<Rightarrow> room_state \<Rightarrow> room_state" where
  "room_run cases chs [] st = st"
| "room_run cases chs (e # es) st = room_run cases chs es (room_step cases chs e st)"

section \<open>The Certificate component and App\<close>

text \<open>
  \<open>Certificate\<close> holds the typed name, which starts empty.  Its \<open>Finish\<close> button is
  disabled while \<open>name.trim()\<close> is empty and its \<open>onClick\<close> is the prop \<open>onDone\<close>
  itself, declared with the type \<open>() => void\<close>: a click calls \<open>onDone\<close> with the event
  of the click and with nothing of the component's state.  \<open>trim\<close> removes the white space and line terminators of ECMAScript at
  both ends, so the trimmed name is empty exactly when the name is a sequence of them;
  \<open>js_whitespace\<close> lists their UTF-8 encodings.
\<close>

definition js_whitespace :: "string list" where
  "js_whitespace =
    [[CHR 0x09], [CHR 0x0A], [CHR 0x0B], [CHR 0x0C], [CHR 0x0D], [CHR 0x20],
     [CHR 0xC2, CHR 0xA0],
     [CHR 0xE1, CHR 0x9A, CHR 0x80],
     [CHR 0xE2, CHR 0x80, CHR 0x80], [CHR 0xE2, CHR 0x80, CHR 0x81],
     [CHR 0xE2, CHR 0x80, CHR 0x82], [CHR 0xE2, CHR 0x80, CHR 0x83],
     [CHR 0xE2, CHR 0x80, CHR 0x84], [CHR 0xE2, CHR 0x80, CHR 0x85],
     [CHR 0xE2, CHR 0x80, CHR 0x86], [CHR 0xE2, CHR 0x80, CHR 0x87],
     [CHR 0xE2, CHR 0x80, CHR 0x88], [CHR 0xE2, CHR 0x80, CHR 0x89],
     [CHR 0xE2, CHR 0x80, CHR 0x8A],
     [CHR 0xE2, CHR 0x80, CHR 0xA8], [CHR 0xE2, CHR 0x80, CHR 0xA9],
     [CHR 0xE2, CHR 0x80, CHR 0xAF],
     [CHR 0xE2, CHR 0x81, CHR 0x9F],
     [CHR 0xE3, CHR 0x80, CHR 0x80],
     [CHR 0xEF, CHR 0xBB, CHR 0xBF]]"

definition leading_whitespace :: "string \<Rightarrow> nat" where
  \<comment> \<open>the number of bytes of the white-space character at the head of \<open>s\<close>, or 0\<close>
  "leading_whitespace s =
     (case find (\<lambda>w. take (length w) s = w) js_whitespace of
        None \<Rightarrow> 0
      | Some w \<Rightarrow> length w)"

function trim_is_empty :: "string \<Rightarrow> bool" where
  "trim_is_empty s =
     (if s = [] then True
      else if leading_whitespace s = 0 then False
      else trim_is_empty (drop (leading_whitespace s) s))"
  by pat_completeness auto
termination
  by (relation "measure length") auto

declare trim_is_empty.simps [simp del]

datatype cert_event = SetName string | Finish MouseEvent

definition cert_init :: string where
  "cert_init = []"

definition cert_step :: "cert_event \<Rightarrow> string \<Rightarrow> string \<times> callback option" where
  "cert_step e name =
     (case e of
        SetName s \<Rightarrow> (s, None)
      | Finish ev \<Rightarrow> if trim_is_empty name then (name, None) else (name, Some (onDone ev)))"

fun cert_run :: "cert_event list \<Rightarrow> string \<Rightarrow> string \<times> callback list" where
  "cert_run [] name = (name, [])"
| "cert_run (e # es) name =
     (let (name', cb) = cert_step e name;
          (name'', cbs) = cert_run es name'
      in (name'', (case cb of None \<Rightarrow> [] | Some c \<Rightarrow> [c]) @ cbs))"

text \<open>
  \<open>App\<close> holds the stage and the score and mounts the component of the stage with one
  callback: \<open>onComplete\<close> stores the score and moves to the room, \<open>onFinish\<close> moves to
  the certificate, \<open>onDone\<close> moves to the end screen and takes no parameter, so the
  event it is called with is dropped.  A component that is not mounted
  calls nothing, so a callback of another stage changes nothing.  Both versions of
  \<open>App\<close> in the repository have these transitions.
\<close>

datatype stage = stage_quiz | stage_room | stage_certificate | stage_done

record app_state =
  stage :: stage
  app_score :: nat

definition app_init :: app_state where
  "app_init = \<lparr>stage = stage_quiz, app_score = 0\<rparr>"

definition app_callback :: "callback \<Rightarrow> app_state \<Rightarrow> app_state" where
  "app_callback cb st =
     (case (stage st, cb) of
        (stage_quiz, onComplete finalScore) \<Rightarrow>
          st\<lparr>app_score := finalScore, stage := stage_room\<rparr>
      | (stage_room, onFinish) \<Rightarrow> st\<lparr>stage := stage_certificate\<rparr>
      | (stage_certificate, onDone ev) \<Rightarrow> st\<lparr>stage := stage_done\<rparr>
      | _ \<Rightarrow> st)"

section \<open>Auxiliary notions of the proofs\<close>

definition escaped :: "char \<Rightarrow> bool" where
  \<comment> \<open>the characters \<open>JSON_quote_char\<close> writes as an escape sequence\<close>
  "escaped c =
     (c \<in> {CHR 0x08, CHR 0x09, CHR 0x0A, CHR 0x0C, CHR 0x0D, CHR 0x22, CHR 0x5C} \<or>
      (of_char c :: nat) < 32)"

text \<open>
  The answers a run of events submits: the selection at each click on the submit button
  of a question page.  \<open>count_correct\<close> counts the answers that equal the correct
  answer of their question.
\<close>

fun submitted :: "quiz_event list \<Rightarrow> quiz_state \<Rightarrow> string list" where
  "submitted [] st = []"
| "submitted (e # es) st =
     (case (e, selected st) of
        (SubmitMCQ, Some a) \<Rightarrow> if step st < length MCQS then [a] else []
      | _ \<Rightarrow> []) @ submitted es (fst (quiz_step e st))"

definition count_correct :: "MCQ list \<Rightarrow> string list \<Rightarrow> nat" where
  "count_correct qs as = length (filter (\<lambda>(q, a). a = correct q) (zip qs as))"

text \<open>
  Two events of the certificate are the same up to the name when both are clicks on
  \<open>Finish\<close> with the same event, or both set the name and the two names are both
  blank or both not blank.
\<close>

fun same_up_to_name :: "cert_event \<Rightarrow> cert_event \<Rightarrow> bool" where
  "same_up_to_name (SetName s) (SetName s') = (trim_is_empty s = trim_is_empty s')"
| "same_up_to_name (Finish ev) (Finish ev') = (ev = ev')"
| "same_up_to_name _ _ = False"

text \<open>
  The pages of all documents, each with its document; the radio option that the viewer
  should count as correct on a page (the real issue when the page has one, the
  no-issues option otherwise); and the invariant of the states the room reaches:
  \<open>credit_inv\<close> says that a page is credited exactly when its stored selection is the
  correct value.
\<close>

definition all_pages :: "(ChartDoc \<times> Page) list" where
  "all_pages = concat (map (\<lambda>d. map (\<lambda>pg. (d, pg)) (pages d)) chartDocs)"

definition correctOption :: "ChartDoc \<Rightarrow> Page \<Rightarrow> RadioOption" where
  "correctOption doc pg =
     (case realOption doc pg of Some ro \<Rightarrow> ro | None \<Rightarrow> noIssuesOption doc pg)"

definition credit_inv :: "room_state \<Rightarrow> bool" where
  "credit_inv st =
     list_all (\<lambda>(d, pg). pageKey d pg \<in> set (foundIssues st) \<longleftrightarrow>
                 pageSelections st (pageKey d pg) = Some (correctValue d pg)) all_pages"

definition room_inv :: "ChartRow list \<Rightarrow> room_state \<Rightarrow> bool" where
  "room_inv chs st =
     (callIndex st < length callSteps \<and>
      distinct (auditSelected st) \<and>
      set (auditSelected st) \<subseteq> set (map row_id chs) \<and>
      distinct (foundIssues st) \<and>
      set (foundIssues st) \<subseteq> set (map (\<lambda>(d, pg). pageKey d pg) all_pages) \<and>
      (case openDoc st of
         None \<Rightarrow> True
       | Some d \<Rightarrow> d \<in> set chartDocs \<and> docPage st < length (pages d)) \<and>
      credit_inv st)"

section \<open>Example states and sessions\<close>

text \<open>Concrete states and event sequences at which the theorems are instantiated.\<close>

definition reorder_example :: quiz_state where
  \<comment> \<open>a state on the reorder page\<close>
  "reorder_example = \<lparr>step = 4, score = 2, selected = None, order = CORRECT_ORDER\<rparr>"

definition question_example :: quiz_state where
  \<comment> \<open>a state on the second question with a wrong answer selected\<close>
  "question_example =
    \<lparr>step = 1, score = 1, selected = Some ''That the spouse knows the last visit date.'',
     order = CORRECT_ORDER\<rparr>"

definition summary_example :: quiz_state where
  \<comment> \<open>a state on the summary page\<close>
  "summary_example = \<lparr>step = 5, score = 3, selected = None, order = CORRECT_ORDER\<rparr>"

definition quiz_example_events :: "quiz_event list" where
  \<comment> \<open>a session: question 2 answered wrongly, an early attempt to finish, then the
     last item moved to the top\<close>
  "quiz_example_events =
    [Select (correct (MCQS ! 0)), SubmitMCQ,
     Select ''That the spouse knows the last visit date.'', SubmitMCQ,
     Select ''Email everything immediately to be helpful.'',
     Select (correct (MCQS ! 2)), SubmitMCQ,
     Select (correct (MCQS ! 3)), SubmitMCQ,
     SubmitReorder, Enter,
     MoveUp 4, MoveUp 3, MoveUp 2, MoveUp 1,
     SubmitReorder, Enter]"

definition call_wrong_example :: room_state where
  \<comment> \<open>the call answered, a wrong answer to the first step selected\<close>
  "call_wrong_example =
     room_init\<lparr>callAnswered := True, callSelected := Some ''Put caller on hold immediately.''\<rparr>"

definition call_right_example :: room_state where
  \<comment> \<open>the call answered, the right answer to the first step selected\<close>
  "call_right_example =
     room_init\<lparr>callAnswered := True, callSelected := Some ''Verify two identifiers (name + DOB).''\<rparr>"

definition call_last_example :: room_state where
  \<comment> \<open>the last step of the call with its right answer selected\<close>
  "call_last_example =
     room_init\<lparr>callAnswered := True, callIndex := 2,
       callSelected := Some ''Confirm scope & delivery method, review ID/authorization, and give timeline following policy.''\<rparr>"

definition binder_example_events :: "room_event list" where
  \<comment> \<open>a session: the call, the binder answered correctly, then case A1 answered again,
     wrongly\<close>
  "binder_example_events =
    [AnswerPhone,
     SelectCall (correct (callSteps ! 0)), SubmitCall,
     SelectCall (correct (callSteps ! 1)), SubmitCall,
     SelectCall (correct (callSteps ! 2)), SubmitCall,
     OpenCoding,
     AnswerCoding ''A1'' ''99213 + I10'',
     AnswerCoding ''A2'' ''99213 + I10'',
     AnswerCoding ''B1'' ''99203 + J06.9'',
     AnswerCoding ''B2'' ''99203 + J06.9'',
     AnswerCoding ''A1'' ''99203 + J06.9'']"

definition binder_done_example :: room_state where
  \<comment> \<open>the binder open and done\<close>
  "binder_done_example =
     room_init\<lparr>callAnswered := True, callComplete := True, codingOpen := True,
       codingDone := True, callIndex := 2\<rparr>"

definition audit_example_events :: "room_event list" where
  \<comment> \<open>a session: the call with one wrong try; charts 5 and 3 ticked (chart 4 ticked
     and unticked); a first submission; three pages judged correctly, one of them at
     the second try\<close>
  "audit_example_events =
    [AnswerPhone,
     SelectCall ''Put caller on hold immediately.'', SubmitCall,
     SelectCall (correct (callSteps ! 0)), SubmitCall,
     SelectCall (correct (callSteps ! 1)), SubmitCall,
     SelectCall (correct (callSteps ! 2)), SubmitCall,
     OpenAudit,
     ToggleAudit ''4'', ToggleAudit ''5'', ToggleAudit ''4'', ToggleAudit ''3'',
     AuditCheck,
     OpenDoc (chartDocs ! 0), SelectOption (\<lambda>k. 0) 2, NextPage, NextPage,
     SelectOption (\<lambda>k. 0) 2, SelectOption (\<lambda>k. 0) 0, CloseDoc,
     OpenDoc (chartDocs ! 2), SelectOption (\<lambda>k. 0) 0, CloseDoc]"

definition after_call :: room_state where
  \<comment> \<open>the state of that session when the call is complete\<close>
  "after_call =
     \<lparr>callAnswered = True, callComplete = True, codingOpen = False, auditOpen = False,
      codingDone = False, auditDone = False, callIndex = 2,
      callSelected = Some (correct (callSteps ! 2)),
      codingAnswers = Map.empty,
      auditSelected = [], openDoc = None, docPage = 0,
      pageSelections = Map.empty, foundIssues = []\<rparr>"

definition after_toggles :: room_state where
  \<comment> \<open>after the first submission of the audit\<close>
  "after_toggles = after_call\<lparr>auditOpen := True, auditSelected := [''5'', ''3'']\<rparr>"

definition after_first_doc :: room_state where
  \<comment> \<open>after the first document is closed\<close>
  "after_first_doc =
     after_toggles\<lparr>docPage := 2,
       pageSelections := [''D1:p1'' \<mapsto> ''D1:p1:none'', ''D1:p3'' \<mapsto> ''D1:i1''],
       foundIssues := [''D1:p1'', ''D1:p3'']\<rparr>"

definition audit_example :: room_state where
  \<comment> \<open>the state that session ends in: the audit open, charts 5 and 3 ticked, three
     pages credited\<close>
  "audit_example =
     after_first_doc\<lparr>docPage := 0,
       pageSelections := [''D1:p1'' \<mapsto> ''D1:p1:none'', ''D1:p3'' \<mapsto> ''D1:i1'',
                          ''D3:p1'' \<mapsto> ''D3:i1''],
       foundIssues := [''D1:p1'', ''D1:p3'', ''D3:p1'']\<rparr>"

definition example_doc :: ChartDoc where
  "example_doc = chartDocs ! 0"

definition example_page :: Page where
  \<comment> \<open>the signature page of the progress note, which has the real issue\<close>
  "example_page = pages example_doc ! 2"

definition click_example :: MouseEvent where
  "click_example = \<lparr>timeStamp = 7, clientX = 640, clientY = 480\<rparr>"

section \<open>The random source and the shuffle\<close>

lemma draw_in_range:
  assumes "0 \<le> r" "r < 1"
  shows "nat \<lfloor>r * real (Suc n)\<rfloor> < Suc n"
proof -
  have "r * real (Suc n) < real (Suc n)" using assms by simp
  then have "\<lfloor>r * real (Suc n)\<rfloor> < int (Suc n)" by (simp add: floor_less_iff)
  moreover have "0 \<le> \<lfloor>r * real (Suc n)\<rfloor>" using assms by simp
  ultimately show ?thesis by linarith
qed

text \<open>Every swap of the loop is within the array, so the loop permutes it.\<close>

lemma shuffle_loop_mset:
  "unit_rng rng \<Longrightarrow> n < length a \<Longrightarrow> mset (shuffle_loop rng k n a) = mset a"
proof (induction n arbitrary: k a)
  case 0
  then show ?case by simp
next
  case (Suc n)
  let ?j = "nat \<lfloor>rng k * real (Suc (Suc n))\<rfloor>"
  have j: "?j < Suc (Suc n)"
    using Suc.prems(1) by (intro draw_in_range) (auto simp: unit_rng_def)
  then have "?j < length a" using Suc.prems(2) by simp
  then have "mset (a[Suc n := a ! ?j, ?j := a ! Suc n]) = mset a"
    using Suc.prems(2) by (simp add: mset_swap)
  moreover have "mset (shuffle_loop rng (Suc k) n (a[Suc n := a ! ?j, ?j := a ! Suc n]))
      = mset (a[Suc n := a ! ?j, ?j := a ! Suc n])"
    using Suc.prems by (intro Suc.IH) auto
  ultimately show ?case by (simp add: Let_def)
qed

lemma shuffle_mset: "unit_rng rng \<Longrightarrow> mset (shuffle rng xs) = mset xs"
  by (cases xs) (simp_all add: shuffle_def shuffle_loop_mset)

lemma shuffle_set: "unit_rng rng \<Longrightarrow> set (shuffle rng xs) = set xs"
  by (metis shuffle_mset set_mset_mset)

lemma shuffle_length: "unit_rng rng \<Longrightarrow> length (shuffle rng xs) = length xs"
  by (metis shuffle_mset size_mset)

lemma unit_rng_after_draws: "unit_rng rng \<Longrightarrow> unit_rng (after_draws n rng)"
  by (simp add: unit_rng_def after_draws_def)

lemma unit_rng_const: "unit_rng (\<lambda>k. 9 / 10)"
  by (simp add: unit_rng_def)

section \<open>\<open>JSON.stringify\<close> is injective on arrays of strings\<close>

lemma of_char_hexdigit:
  "n < 16 \<Longrightarrow> (of_char (hexdigit n) :: nat) = (if n < 10 then 48 + n else 87 + n)"
  by (simp add: hexdigit_def)

lemma hexdigit_inj: "a < 16 \<Longrightarrow> b < 16 \<Longrightarrow> hexdigit a = hexdigit b \<Longrightarrow> a = b"
proof -
  assume a: "a < 16" and b: "b < 16" and e: "hexdigit a = hexdigit b"
  from e have "(of_char (hexdigit a) :: nat) = of_char (hexdigit b)" by simp
  with a b show "a = b" by (simp add: of_char_hexdigit split: if_splits)
qed

lemma quote_plain:
  "\<not> escaped c \<Longrightarrow> JSON_quote_char c = [c] \<and> c \<noteq> CHR 0x5C \<and> c \<noteq> CHR 0x22"
  by (auto simp: escaped_def JSON_quote_char_def)

lemma quote_escaped: "escaped c \<Longrightarrow> \<exists>t. JSON_quote_char c = CHR 0x5C # t"
  by (auto simp: escaped_def JSON_quote_char_def)

lemma hex_eq:
  assumes "(of_char c :: nat) < 32" "(of_char d :: nat) < 32"
    "hexdigit ((of_char c :: nat) div 16) = hexdigit ((of_char d :: nat) div 16)"
    "hexdigit ((of_char c :: nat) mod 16) = hexdigit ((of_char d :: nat) mod 16)"
  shows "c = d"
proof -
  have "(of_char c :: nat) div 16 = of_char d div 16"
    using assms(1,2) by (intro hexdigit_inj[OF _ _ assms(3)]) auto
  moreover have "(of_char c :: nat) mod 16 = of_char d mod 16"
    by (intro hexdigit_inj[OF _ _ assms(4)]) auto
  ultimately have "(of_char c :: nat) = of_char d"
    by (metis div_mult_mod_eq)
  then show ?thesis by simp
qed

lemma quote_escaped_inj:
  assumes "escaped c" "escaped d" "JSON_quote_char c @ r = JSON_quote_char d @ r'"
  shows "c = d \<and> r = r'"
  using assms
  unfolding escaped_def JSON_quote_char_def
  by (auto split: if_splits dest: hex_eq)

text \<open>
  No escape sequence is a prefix of another one, and an unescaped character is never a
  backslash: the character written first can be read back.
\<close>

lemma JSON_quote_char_inj:
  assumes "JSON_quote_char c @ r = JSON_quote_char d @ r'"
  shows "c = d \<and> r = r'"
proof (cases "escaped c"; cases "escaped d")
  assume "escaped c" "escaped d"
  then show ?thesis using assms by (rule quote_escaped_inj)
next
  assume c: "escaped c" and d: "\<not> escaped d"
  from quote_escaped[OF c] quote_plain[OF d] assms show ?thesis by auto
next
  assume c: "\<not> escaped c" and d: "escaped d"
  from quote_escaped[OF d] quote_plain[OF c] assms show ?thesis by auto
next
  assume c: "\<not> escaped c" and d: "\<not> escaped d"
  from quote_plain[OF d] quote_plain[OF c] assms show ?thesis by auto
qed

lemma JSON_quote_char_hd: "\<exists>x t. JSON_quote_char c = x # t \<and> x \<noteq> CHR 0x22"
  by (cases "escaped c") (use quote_escaped[of c] quote_plain[of c] in auto)

lemma quote_body_inj:
  "concat (map JSON_quote_char s) @ CHR 0x22 # r = concat (map JSON_quote_char t) @ CHR 0x22 # r'
     \<Longrightarrow> s = t \<and> r = r'"
proof (induction s arbitrary: t)
  case Nil
  then show ?case
  proof (cases t)
    case (Cons d t')
    with Nil JSON_quote_char_hd[of d] show ?thesis by auto
  qed simp
next
  case (Cons c s)
  show ?case
  proof (cases t)
    case Nil
    with Cons.prems JSON_quote_char_hd[of c] show ?thesis by auto
  next
    case (Cons d t')
    with Cons.prems have
      "JSON_quote_char c @ (concat (map JSON_quote_char s) @ CHR 0x22 # r) =
       JSON_quote_char d @ (concat (map JSON_quote_char t') @ CHR 0x22 # r')" by simp
    from JSON_quote_char_inj[OF this] Cons.IH[of t'] Cons show ?thesis by simp
  qed
qed

lemma JSON_quote_inj: "JSON_quote s @ r = JSON_quote t @ r' \<Longrightarrow> s = t \<and> r = r'"
  using quote_body_inj[of s r t r'] by (simp add: JSON_quote_def)

lemma join_commas_inj:
  "join_commas (map JSON_quote xs) @ CHR '']'' # r =
   join_commas (map JSON_quote ys) @ CHR '']'' # r' \<Longrightarrow> xs = ys"
proof (induction xs arbitrary: ys rule: induct_list012)
  case 1
  then show ?case by (cases ys rule: join_commas.cases) (auto simp: JSON_quote_def)
next
  case (2 x)
  then show ?case
  proof (cases ys rule: join_commas.cases)
    case 1
    with 2 show ?thesis by (auto simp: JSON_quote_def)
  next
    case (2 y)
    with "2.prems" JSON_quote_inj[of x _ y] show ?thesis by auto
  next
    case (3 y z zs)
    with "2.prems" JSON_quote_inj[of x "CHR '']'' # r" y] show ?thesis by auto
  qed
next
  case (3 x x' xs)
  show ?case
  proof (cases ys rule: join_commas.cases)
    case 1
    with 3 show ?thesis by (auto simp: JSON_quote_def)
  next
    case (2 y)
    with "3.prems" JSON_quote_inj[of x _ y "CHR '']'' # r'"] show ?thesis by auto
  next
    case (3 y z zs)
    with "3.prems" JSON_quote_inj[of x _ y] "3.IH"(2)[of "z # zs"] show ?thesis by auto
  qed
qed

lemma JSON_stringify_inj: "JSON_stringify xs = JSON_stringify ys \<longleftrightarrow> xs = ys"
  using join_commas_inj[of xs "[]" ys "[]"] by (auto simp: JSON_stringify_def)

section \<open>The initial order of the reorder task\<close>

lemma shuffle_identity_draws: "shuffle (\<lambda>k. 9 / 10) CORRECT_ORDER = CORRECT_ORDER"
  by (simp add: shuffle_def CORRECT_ORDER_def eval_nat_numeral)

text \<open>
  Claim C1: the randomized initial order of the reorder task is never the correct order,
  whatever the random source yields.

  The code shuffles a second time when the first shuffle returns the correct order, and
  takes the second result unchecked.  When every draw \<open>Math.random()\<close> is \<open>0.9\<close>, each
  step of each shuffle swaps an element with itself (\<open>floor(0.9 * (i + 1)) = i\<close> for
  \<open>i = 4, 3, 2, 1\<close>), both shuffles return \<open>CORRECT_ORDER\<close>, and the learner is
  shown the correct order at the start.
\<close>

theorem randomizedStart_not_always_incorrect:
  "unit_rng (\<lambda>k. 9 / 10) \<and> randomizedStart (\<lambda>k. 9 / 10) = CORRECT_ORDER"
proof -
  have "after_draws (length CORRECT_ORDER - 1) (\<lambda>k. 9 / 10) = (\<lambda>k. 9 / 10)"
    by (simp add: after_draws_def)
  then show ?thesis
    by (simp add: randomizedStart_def shuffle_identity_draws unit_rng_const)
qed

section \<open>The order check\<close>

lemma length_MCQS: "length MCQS = 4"
  by (simp add: MCQS_def)

lemma distinct_CORRECT_ORDER: "distinct CORRECT_ORDER"
  by (simp add: CORRECT_ORDER_def)

lemma isOrderCorrect_eq: "isOrderCorrect st \<longleftrightarrow> order st = CORRECT_ORDER"
  by (simp add: isOrderCorrect_def JSON_stringify_inj)

lemma transposition_differs:
  assumes "distinct xs" "i < j" "j < length xs"
  shows "xs[i := xs ! j, j := xs ! i] \<noteq> xs"
proof
  assume e: "xs[i := xs ! j, j := xs ! i] = xs"
  have "xs[i := xs ! j, j := xs ! i] ! i = xs ! j" using assms by simp
  with e have "xs ! i = xs ! j" by simp
  with assms show False by (simp add: nth_eq_iff_index_eq)
qed

text \<open>
  Claim C9: the order check passes if and only if the working sequence equals
  \<open>CORRECT_ORDER\<close> element by element; a sequence that is \<open>CORRECT_ORDER\<close> with two
  of its elements exchanged fails; and submitting the order completes the task (moves
  to the summary page) only when the check holds, and otherwise changes nothing.
\<close>

theorem isOrderCorrect_exact:
  "(isOrderCorrect st \<longleftrightarrow>
      length (order st) = length CORRECT_ORDER \<and>
      (\<forall>i < length CORRECT_ORDER. order st ! i = CORRECT_ORDER ! i)) \<and>
   (i < j \<and> j < length CORRECT_ORDER \<longrightarrow>
      \<not> isOrderCorrect
          (st\<lparr>order := CORRECT_ORDER[i := CORRECT_ORDER ! j, j := CORRECT_ORDER ! i]\<rparr>)) \<and>
   submitReorder st =
     (if order st = CORRECT_ORDER then st\<lparr>step := length MCQS + 1\<rparr> else st) \<and>
   (step st = length MCQS \<longrightarrow>
      quiz_step SubmitReorder st =
        (if order st = CORRECT_ORDER then st\<lparr>step := length MCQS + 1\<rparr> else st, None))"
proof -
  have a: "isOrderCorrect st \<longleftrightarrow>
      length (order st) = length CORRECT_ORDER \<and>
      (\<forall>i < length CORRECT_ORDER. order st ! i = CORRECT_ORDER ! i)"
    unfolding isOrderCorrect_eq by (auto simp: list_eq_iff_nth_eq)
  have b: "i < j \<and> j < length CORRECT_ORDER \<longrightarrow>
      \<not> isOrderCorrect
          (st\<lparr>order := CORRECT_ORDER[i := CORRECT_ORDER ! j, j := CORRECT_ORDER ! i]\<rparr>)"
    using transposition_differs[OF distinct_CORRECT_ORDER, of i j]
    by (simp add: isOrderCorrect_eq)
  have c: "submitReorder st =
      (if order st = CORRECT_ORDER then st\<lparr>step := length MCQS + 1\<rparr> else st)"
    by (simp add: submitReorder_def isOrderCorrect_eq)
  have d: "step st = length MCQS \<longrightarrow>
      quiz_step SubmitReorder st =
        (if order st = CORRECT_ORDER then st\<lparr>step := length MCQS + 1\<rparr> else st, None)"
    by (simp add: quiz_step_def submitReorder_def isOrderCorrect_eq)
  from a b c d show ?thesis by blast
qed

theorem isOrderCorrect_exact_witness:
  "isOrderCorrect reorder_example \<and>
   (0::nat) < 1 \<and> 1 < length CORRECT_ORDER \<and>
   \<not> isOrderCorrect
       (reorder_example\<lparr>order := CORRECT_ORDER[0 := CORRECT_ORDER ! 1, 1 := CORRECT_ORDER ! 0]\<rparr>) \<and>
   step reorder_example = length MCQS \<and>
   quiz_step SubmitReorder reorder_example = (reorder_example\<lparr>step := 5\<rparr>, None)"
  using isOrderCorrect_exact[of reorder_example 0 1]
  by (simp add: reorder_example_def length_MCQS CORRECT_ORDER_def)

section \<open>The score of the quiz\<close>

lemma submitMCQ_Some:
  assumes "step st < length MCQS" "selected st = Some a"
  shows "submitMCQ st =
    Inr (st\<lparr>score := score st + (if a = correct (MCQS ! step st) then 1 else 0),
            selected := None, step := step st + 1\<rparr>)"
  using assms by (auto simp: submitMCQ_def Let_def length_MCQS)

lemma score_moves:
  "score (moveUp i st) = score st \<and> score (moveDown i st) = score st \<and>
   score (submitReorder st) = score st"
  by (simp add: moveUp_def moveDown_def submitReorder_def Let_def)

lemma quiz_step_summary:
  assumes "step st > length MCQS"
  shows "quiz_step e st = (st, if e = Enter then Some (onComplete (score st)) else None)"
  using assms by (cases e) (simp_all add: quiz_step_def)

lemma quiz_step_reorder:
  assumes "step st = length MCQS"
  shows "snd (quiz_step e st) = None \<and> score (fst (quiz_step e st)) = score st \<and>
         (step (fst (quiz_step e st)) = step st \<or>
          step (fst (quiz_step e st)) = Suc (step st) \<and>
          order (fst (quiz_step e st)) = CORRECT_ORDER)"
  using assms
  by (cases e) (simp_all add: quiz_step_def score_moves moveUp_def moveDown_def Let_def
      submitReorder_def isOrderCorrect_eq)

lemma quiz_step_submit:
  assumes "step st < length MCQS" "selected st = Some a"
  shows "quiz_step SubmitMCQ st =
    (st\<lparr>score := score st + (if a = correct (MCQS ! step st) then 1 else 0),
        selected := None, step := step st + 1\<rparr>, None)"
  using assms by (simp add: quiz_step_def submitMCQ_Some)

lemma quiz_step_question:
  assumes "step st < length MCQS" "e \<noteq> SubmitMCQ \<or> selected st = None"
  shows "snd (quiz_step e st) = None \<and> score (fst (quiz_step e st)) = score st \<and>
         step (fst (quiz_step e st)) = step st"
  using assms by (cases e) (auto simp: quiz_step_def)

lemma quiz_run_summary:
  "step st > length MCQS \<Longrightarrow> fst (quiz_run es st) = st"
  by (induction es) (auto simp: quiz_step_summary split: prod.splits)

lemma count_correct_Nil [simp]: "count_correct [] as = 0" "count_correct qs [] = 0"
  by (simp_all add: count_correct_def)

lemma count_correct_drop:
  assumes "n < length qs"
  shows "count_correct (drop n qs) (a # as) =
         (if a = correct (qs ! n) then 1 else 0) + count_correct (drop (Suc n) qs) as"
  using assms by (simp add: count_correct_def Cons_nth_drop_Suc[symmetric])

text \<open>
  The invariant of a run from any state: the score grows by the number of correct
  answers among those submitted, to the questions from the current one on; the page
  never goes back; every callback carries the final score and is made on the summary
  page; and the summary page is entered with the correct order.
\<close>

lemma quiz_run_gen:
  assumes "quiz_run es st = (st', cbs)"
  shows "score st' = score st + count_correct (drop (step st) MCQS) (submitted es st) \<and>
         step st \<le> step st' \<and>
         length (submitted es st) + min (step st) (length MCQS) = min (step st') (length MCQS) \<and>
         (\<forall>cb \<in> set cbs. cb = onComplete (score st') \<and> step st' > length MCQS) \<and>
         (step st' > length MCQS \<longrightarrow> step st \<le> length MCQS \<longrightarrow> order st' = CORRECT_ORDER)"
  using assms
proof (induction es arbitrary: st st' cbs)
  case Nil
  then show ?case by auto
next
  case (Cons e es)
  obtain st1 cb where s1: "quiz_step e st = (st1, cb)" by (cases "quiz_step e st")
  obtain st2 cbs2 where r: "quiz_run es st1 = (st2, cbs2)" by (cases "quiz_run es st1")
  from Cons.prems s1 r have st': "st' = st2"
    and cbs: "cbs = (case cb of None \<Rightarrow> [] | Some c \<Rightarrow> [c]) @ cbs2" by auto
  note IH = Cons.IH[OF r]
  consider (late) "step st > length MCQS"
    | (reorder) "step st = length MCQS"
    | (submit) a where "step st < length MCQS" "e = SubmitMCQ" "selected st = Some a"
    | (other) "step st < length MCQS" "e \<noteq> SubmitMCQ \<or> selected st = None"
    by (cases "selected st"; cases "step st" "length MCQS" rule: linorder_cases; blast)
  then show ?case
  proof cases
    case late
    with quiz_step_summary[OF late, of e] s1 have "st1 = st" by simp
    moreover have "submitted (e # es) st = submitted es st1"
      using late s1 by (auto split: quiz_event.splits option.splits)
    moreover have "cb = None \<or> cb = Some (onComplete (score st))"
      using quiz_step_summary[OF late, of e] s1 by (auto split: if_splits)
    moreover have "drop (step st) MCQS = []" using late by simp
    ultimately show ?thesis using IH late st' cbs by auto
  next
    case reorder
    from quiz_step_reorder[OF reorder, of e] s1
    have f: "cb = None" "score st1 = score st"
      "step st1 = step st \<or> step st1 = Suc (step st) \<and> order st1 = CORRECT_ORDER" by auto
    have sub: "submitted (e # es) st = submitted es st1"
      using reorder s1 by (auto split: quiz_event.splits option.splits)
    have dr: "drop (step st) MCQS = []" "drop (step st1) MCQS = []" using reorder f by auto
    from f(3) show ?thesis
    proof
      assume "step st1 = step st"
      then show ?thesis using IH f sub dr reorder st' cbs by auto
    next
      assume a: "step st1 = Suc (step st) \<and> order st1 = CORRECT_ORDER"
      then have "step st1 > length MCQS" using reorder by simp
      from quiz_run_summary[OF this, of es] r have "st2 = st1" by simp
      then show ?thesis using IH f sub dr reorder st' cbs a by auto
    qed
  next
    case submit
    from quiz_step_submit[OF submit(1,3)] s1 submit(2)
    have st1: "st1 = st\<lparr>score := score st + (if a = correct (MCQS ! step st) then 1 else 0),
        selected := None, step := step st + 1\<rparr>" and cb: "cb = None" by auto
    have sub: "submitted (e # es) st = a # submitted es st1"
      using submit s1 by simp
    show ?thesis using IH submit st' cbs cb sub count_correct_drop[OF submit(1)]
      by (auto simp: st1)
  next
    case other
    from quiz_step_question[OF other] s1
    have f: "cb = None" "score st1 = score st" "step st1 = step st" by auto
    have sub: "submitted (e # es) st = submitted es st1"
      using other s1 by (auto split: quiz_event.splits option.splits)
    show ?thesis using IH f sub other st' cbs by auto
  qed
qed

lemma randomizedStart_zero_draws:
  "randomizedStart (\<lambda>k. 0) =
    [''Confirm authorization/permission is valid.'',
     ''Clarify request scope & preferred delivery method.'',
     ''Process request (fees/timelines per policy).'',
     ''Log disclosure per policy.'',
     ''Verify patient identity (two identifiers).'']"
  by (simp add: randomizedStart_def JSON_stringify_inj shuffle_def CORRECT_ORDER_def
      eval_nat_numeral)

lemma quiz_example_run:
  "quiz_run quiz_example_events (quiz_init (\<lambda>k. 0)) =
     (\<lparr>step = 5, score = 3, selected = None, order = CORRECT_ORDER\<rparr>, [onComplete 3])"
  by (simp add: quiz_example_events_def quiz_init_def randomizedStart_zero_draws quiz_step_def
      submitMCQ_def submitReorder_def isOrderCorrect_eq moveUp_def Let_def
      MCQS_def CORRECT_ORDER_def rsquo_def)

text \<open>
  Claim C8: the score of the quiz is additive.  Submitting an answer to one of the four
  questions adds one point when the answer is the correct answer of the question and
  nothing otherwise, and moves to the next page; the reorder task (moving items,
  submitting the order) never changes the score; and in every session, from the initial
  state, the score is the number of correct answers among those submitted, every call
  of \<open>onComplete\<close> carries that number, and no call happens before all four
  questions are answered and the order is correct.
\<close>

theorem quiz_score_counts_correct_answers:
  "(step st < length MCQS \<and> selected st = Some a \<longrightarrow>
      submitMCQ st =
        Inr (st\<lparr>score := score st + (if a = correct (MCQS ! step st) then 1 else 0),
                selected := None, step := step st + 1\<rparr>)) \<and>
   score (moveUp i st) = score st \<and>
   score (moveDown i st) = score st \<and>
   score (submitReorder st) = score st \<and>
   (quiz_run es (quiz_init rng) = (st', cbs) \<longrightarrow>
      score st' = count_correct MCQS (submitted es (quiz_init rng)) \<and>
      (\<forall>cb \<in> set cbs.
         cb = onComplete (count_correct MCQS (submitted es (quiz_init rng))) \<and>
         length (submitted es (quiz_init rng)) = length MCQS \<and>
         order st' = CORRECT_ORDER))"
proof -
  have run: "score st' = count_correct MCQS (submitted es (quiz_init rng)) \<and>
      (\<forall>cb \<in> set cbs.
         cb = onComplete (count_correct MCQS (submitted es (quiz_init rng))) \<and>
         length (submitted es (quiz_init rng)) = length MCQS \<and>
         order st' = CORRECT_ORDER)"
    if r: "quiz_run es (quiz_init rng) = (st', cbs)"
  proof -
    have i: "step (quiz_init rng) = 0" "score (quiz_init rng) = 0"
      by (simp_all add: quiz_init_def)
    note g = quiz_run_gen[OF r, unfolded i]
    from g have sc: "score st' = count_correct MCQS (submitted es (quiz_init rng))"
      by simp
    from g have len: "length (submitted es (quiz_init rng)) = min (step st') (length MCQS)"
      by simp
    from g have cb: "\<forall>cb \<in> set cbs. cb = onComplete (score st') \<and> step st' > length MCQS"
      by blast
    from g have ord: "step st' > length MCQS \<longrightarrow> order st' = CORRECT_ORDER"
      by simp
    from cb ord len show ?thesis unfolding sc by auto
  qed
  show ?thesis using submitMCQ_Some[of st a] score_moves[of i st] run by blast
qed

theorem quiz_score_counts_correct_answers_witness:
  "step question_example < length MCQS \<and>
   selected question_example = Some ''That the spouse knows the last visit date.'' \<and>
   submitMCQ question_example =
     Inr \<lparr>step = 2, score = 1, selected = None, order = CORRECT_ORDER\<rparr> \<and>
   quiz_run quiz_example_events (quiz_init (\<lambda>k. 0)) =
     (\<lparr>step = 5, score = 3, selected = None, order = CORRECT_ORDER\<rparr>, [onComplete 3]) \<and>
   count_correct MCQS (submitted quiz_example_events (quiz_init (\<lambda>k. 0))) = 3 \<and>
   length (submitted quiz_example_events (quiz_init (\<lambda>k. 0))) = 4"
proof -
  have q: "step question_example < length MCQS"
    "selected question_example = Some ''That the spouse knows the last visit date.''"
    "''That the spouse knows the last visit date.'' \<noteq> correct (MCQS ! step question_example)"
    by (simp_all add: question_example_def MCQS_def)
  from quiz_score_counts_correct_answers[of question_example
      "''That the spouse knows the last visit date.''" 0 quiz_example_events "\<lambda>k. 0"
      "\<lparr>step = 5, score = 3, selected = None, order = CORRECT_ORDER\<rparr>" "[onComplete 3]"]
    q quiz_example_run
  show ?thesis by (simp add: question_example_def length_MCQS)
qed

section \<open>The chart audit\<close>

lemmas audit_example_defs =
  audit_example_def after_first_doc_def after_toggles_def after_call_def

lemma handleAuditCheck_mset:
  assumes "mset chs = mset chs'"
  shows "handleAuditCheck chs st = handleAuditCheck chs' st"
proof -
  let ?P = "\<lambda>c. row_id c \<in> set (auditSelected st)"
  have "mset (filter ?P chs) = filter_mset ?P (mset chs)" by (rule mset_filter)
  also have "\<dots> = filter_mset ?P (mset chs')" by (simp only: assms)
  also have "\<dots> = mset (filter ?P chs')" by (rule mset_filter[symmetric])
  finally have m: "mset (filter ?P chs) = mset (filter ?P chs')" .
  have l: "length (filter ?P chs) = length (filter ?P chs')"
    using m by (rule mset_eq_length)
  have "set (filter ?P chs) = set (filter ?P chs')"
    using m by (rule mset_eq_setD)
  then have a: "list_all isDefect (filter ?P chs) = list_all isDefect (filter ?P chs')"
    by (simp only: list_all_iff)
  show ?thesis unfolding handleAuditCheck_def Let_def l a ..
qed

lemma handleAuditCheck_charts:
  "unit_rng rng \<Longrightarrow> handleAuditCheck (charts rng) st = handleAuditCheck charts_base st"
  by (rule handleAuditCheck_mset) (simp add: charts_def shuffle_mset)

lemma charts_ids:
  "unit_rng rng \<Longrightarrow> set (map row_id (charts rng)) = set (map row_id charts_base)"
  by (simp add: charts_def shuffle_set)


lemma length_filter_ids:
  assumes "distinct (map f xs)"
  shows "length (filter (\<lambda>x. f x \<in> S) xs) = card (S \<inter> f ` set xs)"
proof -
  have d: "distinct (map f (filter (\<lambda>x. f x \<in> S) xs))"
    using assms by (simp add: distinct_map_filter)
  have "length (filter (\<lambda>x. f x \<in> S) xs) = length (map f (filter (\<lambda>x. f x \<in> S) xs))" by simp
  also have "\<dots> = card (set (map f (filter (\<lambda>x. f x \<in> S) xs)))"
    using d by (simp only: distinct_card)
  also have "set (map f (filter (\<lambda>x. f x \<in> S) xs)) = S \<inter> f ` set xs" by auto
  finally show ?thesis .
qed

lemma distinct_chart_ids: "distinct (map row_id charts_base)"
  by (simp add: charts_base_def)

lemma picked_base:
  assumes "S \<subseteq> set (map row_id charts_base)"
  shows "length (filter (\<lambda>c. row_id c \<in> S) charts_base) = card S"
proof -
  have "S \<inter> row_id ` set charts_base = S" using assms by auto
  with length_filter_ids[OF distinct_chart_ids, of S] show ?thesis by simp
qed

lemma defective_base: "set (map row_id (filter isDefect charts_base)) = {''3'', ''5''}"
  by (simp add: charts_base_def)

lemma picked_all_defect:
  assumes "S \<subseteq> set (map row_id charts_base)"
  shows "list_all isDefect (filter (\<lambda>c. row_id c \<in> S) charts_base) \<longleftrightarrow>
     S \<subseteq> set (map row_id (filter isDefect charts_base))"
proof -
  have "list_all isDefect (filter (\<lambda>c. row_id c \<in> S) charts_base) \<longleftrightarrow>
      (\<forall>c \<in> set charts_base. row_id c \<in> S \<longrightarrow> isDefect c)"
    by (auto simp: list_all_iff)
  also have "\<dots> \<longleftrightarrow> S \<subseteq> set (map row_id (filter isDefect charts_base))"
  proof
    assume a: "\<forall>c \<in> set charts_base. row_id c \<in> S \<longrightarrow> isDefect c"
    show "S \<subseteq> set (map row_id (filter isDefect charts_base))"
    proof
      fix x assume x: "x \<in> S"
      with assms obtain c where "c \<in> set charts_base" "row_id c = x" by auto
      with a x show "x \<in> set (map row_id (filter isDefect charts_base))" by auto
    qed
  next
    assume a: "S \<subseteq> set (map row_id (filter isDefect charts_base))"
    show "\<forall>c \<in> set charts_base. row_id c \<in> S \<longrightarrow> isDefect c"
    proof (intro ballI impI)
      fix c assume c: "c \<in> set charts_base" "row_id c \<in> S"
      with a obtain c' where c': "c' \<in> set charts_base" "isDefect c'" "row_id c' = row_id c"
        by auto
      from distinct_chart_ids c(1) c'(1) c'(3) have "c' = c"
        by (meson distinct_map inj_onD)
      with c' show "isDefect c" by simp
    qed
  qed
  finally show ?thesis .
qed


lemma card_defective_base: "card (set (map row_id (filter isDefect charts_base))) = 2"
  by (simp add: charts_base_def)

lemma pair_defective:
  "card S = 2 \<and> S \<subseteq> set (map row_id (filter isDefect charts_base)) \<longleftrightarrow>
   S = set (map row_id (filter isDefect charts_base))"
proof
  assume a: "card S = 2 \<and> S \<subseteq> set (map row_id (filter isDefect charts_base))"
  show "S = set (map row_id (filter isDefect charts_base))"
  proof (rule card_seteq)
    show "finite (set (map row_id (filter isDefect charts_base)))" by (rule finite_set)
    show "S \<subseteq> set (map row_id (filter isDefect charts_base))" using a by (rule conjunct2)
    show "card (set (map row_id (filter isDefect charts_base))) \<le> card S"
      using a card_defective_base by simp
  qed
next
  assume "S = set (map row_id (filter isDefect charts_base))"
  with card_defective_base show
    "card S = 2 \<and> S \<subseteq> set (map row_id (filter isDefect charts_base))" by simp
qed

lemma handleAuditCheck_base:
  assumes "set (auditSelected st) \<subseteq> set (map row_id charts_base)"
  shows "handleAuditCheck charts_base st =
     (if card (set (auditSelected st)) \<noteq> 2 then (Some SelectExactlyTwo, st)
      else if set (auditSelected st) \<noteq> set (map row_id (filter isDefect charts_base))
        then (Some NotQuiteReview, st)
      else if length (foundIssues st) < 3 then (Some NowOpenCharts, st)
      else (None, st\<lparr>auditDone := True\<rparr>))"
proof (cases "card (set (auditSelected st)) = 2")
  case False
  then show ?thesis
    unfolding handleAuditCheck_def Let_def picked_base[OF assms] by simp
next
  case True
  with pair_defective[of "set (auditSelected st)"]
  have "set (auditSelected st) \<subseteq> set (map row_id (filter isDefect charts_base)) \<longleftrightarrow>
        set (auditSelected st) = set (map row_id (filter isDefect charts_base))" by blast
  with True show ?thesis
    unfolding handleAuditCheck_def Let_def picked_base[OF assms] picked_all_defect[OF assms]
    by simp
qed

lemma defective_charts:
  assumes "unit_rng rng"
  shows "set (map row_id (filter isDefect (charts rng))) =
         set (map row_id (filter isDefect charts_base))"
proof -
  have "set (charts rng) = set charts_base"
    using assms by (simp add: charts_def shuffle_set)
  then show ?thesis by simp
qed

lemma handleAuditCheck_sets:
  assumes "unit_rng rng" "set (auditSelected st) \<subseteq> set (map row_id (charts rng))"
  shows "handleAuditCheck (charts rng) st =
     (if card (set (auditSelected st)) \<noteq> 2 then (Some SelectExactlyTwo, st)
      else if set (auditSelected st) \<noteq> set (map row_id (filter isDefect (charts rng)))
        then (Some NotQuiteReview, st)
      else if length (foundIssues st) < 3 then (Some NowOpenCharts, st)
      else (None, st\<lparr>auditDone := True\<rparr>))"
proof -
  from assms have "set (auditSelected st) \<subseteq> set (map row_id charts_base)"
    by (simp only: charts_ids)
  from handleAuditCheck_base[OF this] show ?thesis
    by (simp only: handleAuditCheck_charts[OF assms(1)] defective_charts[OF assms(1)])
qed

text \<open>
  Claim C4: a submission of the audit makes the audit done if and only if the selected
  charts are exactly the defective ones (charts 3 and 5, wherever the shuffle put them)
  and at least three pages are credited in \<open>foundIssues\<close>; with the right pair and
  fewer than three credited pages the submission only raises the reminder and the audit
  stays not done.  The selected ids are ids of chart rows, as in every state the
  component reaches (lemma \<open>room_run_inv\<close>).
\<close>

theorem audit_done_iff:
  assumes "unit_rng rng"
    and "set (auditSelected st) \<subseteq> set (map row_id (charts rng))"
    and "\<not> auditDone st"
  shows "(auditDone (snd (handleAuditCheck (charts rng) st)) \<longleftrightarrow>
            set (auditSelected st) = set (map row_id (filter isDefect (charts rng))) \<and>
            3 \<le> length (foundIssues st)) \<and>
         (set (auditSelected st) = set (map row_id (filter isDefect (charts rng))) \<and>
          length (foundIssues st) < 3 \<longrightarrow>
            handleAuditCheck (charts rng) st = (Some NowOpenCharts, st)) \<and>
         set (map row_id (filter isDefect (charts rng))) = {''3'', ''5''}"
proof -
  have c: "card (set (map row_id (filter isDefect (charts rng)))) = 2"
    by (simp only: defective_charts[OF assms(1)] card_defective_base)
  have d: "set (map row_id (filter isDefect (charts rng))) = {''3'', ''5''}"
    by (simp only: defective_charts[OF assms(1)] defective_base)
  show ?thesis
    unfolding handleAuditCheck_sets[OF assms(1,2)] using assms(3) c d
    by (cases "set (auditSelected st) = set (map row_id (filter isDefect (charts rng)))")
      (simp_all add: not_less)
qed


lemma unit_rng_zero: "unit_rng (\<lambda>k. 0)"
  by (simp add: unit_rng_def)

lemma example_ids_zero:
  "set [''5'', ''3''] \<subseteq> set (map row_id (charts (\<lambda>k. 0)))"
  "set [''3'', ''4''] \<subseteq> set (map row_id (charts (\<lambda>k. 0)))"
  "set [''3''] \<subseteq> set (map row_id (charts (\<lambda>k. 0)))"
  unfolding charts_ids[OF unit_rng_zero] by (simp_all add: charts_base_def)

lemma defective_zero: "set (map row_id (filter isDefect (charts (\<lambda>k. 0)))) = {''3'', ''5''}"
  by (simp only: defective_charts[OF unit_rng_zero] defective_base)

theorem audit_done_iff_witness:
  "unit_rng (\<lambda>k. 0) \<and>
   set (auditSelected audit_example) \<subseteq> set (map row_id (charts (\<lambda>k. 0))) \<and>
   \<not> auditDone audit_example \<and>
   auditDone (snd (handleAuditCheck (charts (\<lambda>k. 0)) audit_example)) \<and>
   \<not> auditDone (snd (handleAuditCheck (charts (\<lambda>k. 0))
        (audit_example\<lparr>foundIssues := [''D1:p1'', ''D1:p3'']\<rparr>))) \<and>
   handleAuditCheck (charts (\<lambda>k. 0)) (audit_example\<lparr>foundIssues := [''D1:p1'', ''D1:p3'']\<rparr>) =
     (Some NowOpenCharts, audit_example\<lparr>foundIssues := [''D1:p1'', ''D1:p3'']\<rparr>)"
proof -
  have s: "set (auditSelected audit_example) \<subseteq> set (map row_id (charts (\<lambda>k. 0)))"
    "set (auditSelected (audit_example\<lparr>foundIssues := [''D1:p1'', ''D1:p3'']\<rparr>))
       \<subseteq> set (map row_id (charts (\<lambda>k. 0)))"
    using example_ids_zero(1) by (simp_all add: audit_example_defs)
  have n: "\<not> auditDone audit_example"
    "\<not> auditDone (audit_example\<lparr>foundIssues := [''D1:p1'', ''D1:p3'']\<rparr>)"
    by (simp_all add: audit_example_defs)
  have e: "set (auditSelected audit_example) = {''3'', ''5''}"
    by (simp add: audit_example_defs insert_commute)
  from audit_done_iff[OF unit_rng_zero s(1) n(1), unfolded defective_zero]
    audit_done_iff[OF unit_rng_zero s(2) n(2), unfolded defective_zero] e s(1) n(1) unit_rng_zero
  show ?thesis by (simp add: audit_example_defs)
qed

text \<open>
  Claim C5: a submission whose selection does not hold exactly two charts is rejected
  with the alert that asks for exactly two, and changes nothing; a submission of two
  charts is never rejected for its count, and it passes the chart part (it is not
  answered with the try-again alert) if and only if the selected set is the set of the
  defective charts, in whichever order the two were ticked and the rows were shuffled.
  The selection is duplicate-free and holds ids of chart rows, as in every state the
  component reaches (lemma \<open>room_run_inv\<close>).
\<close>

theorem audit_selection_count:
  assumes "unit_rng rng"
    and "distinct (auditSelected st)"
    and "set (auditSelected st) \<subseteq> set (map row_id (charts rng))"
  shows "(length (auditSelected st) \<noteq> 2 \<longrightarrow>
            handleAuditCheck (charts rng) st = (Some SelectExactlyTwo, st)) \<and>
         (length (auditSelected st) = 2 \<longrightarrow>
            fst (handleAuditCheck (charts rng) st) \<noteq> Some SelectExactlyTwo \<and>
            (fst (handleAuditCheck (charts rng) st) \<noteq> Some NotQuiteReview \<longleftrightarrow>
               set (auditSelected st) = set (map row_id (filter isDefect (charts rng)))) \<and>
            (fst (handleAuditCheck (charts rng) st) = Some NotQuiteReview \<longrightarrow>
               snd (handleAuditCheck (charts rng) st) = st))"
proof -
  have c: "card (set (auditSelected st)) = length (auditSelected st)"
    using assms(2) by (rule distinct_card)
  show ?thesis
    unfolding handleAuditCheck_sets[OF assms(1,3)] c by simp
qed

theorem audit_selection_count_witness:
  "handleAuditCheck (charts (\<lambda>k. 0)) (audit_example\<lparr>auditSelected := [''3'']\<rparr>) =
     (Some SelectExactlyTwo, audit_example\<lparr>auditSelected := [''3'']\<rparr>) \<and>
   fst (handleAuditCheck (charts (\<lambda>k. 0)) (audit_example\<lparr>auditSelected := [''5'', ''3'']\<rparr>))
     \<noteq> Some NotQuiteReview \<and>
   fst (handleAuditCheck (charts (\<lambda>k. 0)) (audit_example\<lparr>auditSelected := [''5'', ''3'']\<rparr>))
     \<noteq> Some SelectExactlyTwo \<and>
   fst (handleAuditCheck (charts (\<lambda>k. 0)) (audit_example\<lparr>auditSelected := [''3'', ''4'']\<rparr>))
     = Some NotQuiteReview"
proof -
  have d: "distinct (auditSelected (audit_example\<lparr>auditSelected := [''3'']\<rparr>))"
    "distinct (auditSelected (audit_example\<lparr>auditSelected := [''5'', ''3'']\<rparr>))"
    "distinct (auditSelected (audit_example\<lparr>auditSelected := [''3'', ''4'']\<rparr>))"
    by simp_all
  have s: "set (auditSelected (audit_example\<lparr>auditSelected := [''3'']\<rparr>))
        \<subseteq> set (map row_id (charts (\<lambda>k. 0)))"
    "set (auditSelected (audit_example\<lparr>auditSelected := [''5'', ''3'']\<rparr>))
        \<subseteq> set (map row_id (charts (\<lambda>k. 0)))"
    "set (auditSelected (audit_example\<lparr>auditSelected := [''3'', ''4'']\<rparr>))
        \<subseteq> set (map row_id (charts (\<lambda>k. 0)))"
    using example_ids_zero by simp_all
  have e: "{''5'', ''3''} = {''3'', ''5''}" "{''3'', ''4''} \<noteq> {''3'', ''5''}"
    by (simp_all add: insert_commute doubleton_eq_iff)
  from audit_selection_count[OF unit_rng_zero d(1) s(1), unfolded defective_zero]
    audit_selection_count[OF unit_rng_zero d(2) s(2), unfolded defective_zero]
    audit_selection_count[OF unit_rng_zero d(3) s(3), unfolded defective_zero] e
  show ?thesis by simp
qed

section \<open>The phone call\<close>

lemma length_callSteps: "length callSteps = 3"
  by (simp add: callSteps_def)

text \<open>
  Claim C2 says that submitting a wrong answer in the phone call clears the selection.
  It does not: \<open>submitCall\<close> raises the alert and returns, and the wrong answer stays
  selected.
\<close>

theorem submitCall_keeps_wrong_selection:
  "submitCall call_wrong_example = (Some NotQuiteTryAgain, call_wrong_example) \<and>
   callSelected (snd (submitCall call_wrong_example)) = Some ''Put caller on hold immediately.''"
  by (simp add: submitCall_def call_wrong_example_def room_init_def callStep_def callSteps_def)

text \<open>
  Claim C2, amended: submitting a wrong (non-empty) answer raises the try-again alert
  and leaves the whole state as it is, the step index and the selection included;
  submitting the correct answer of a step other than the last moves to the next step
  and clears the selection; submitting the correct answer of the last step completes
  the call.
\<close>

theorem submitCall_cases:
  "callSelected st = Some a \<and> a \<noteq> [] \<longrightarrow>
     (a \<noteq> correct (callStep st) \<longrightarrow> submitCall st = (Some NotQuiteTryAgain, st)) \<and>
     (a = correct (callStep st) \<and> callIndex st + 1 < length callSteps \<longrightarrow>
        submitCall st = (None, st\<lparr>callIndex := callIndex st + 1, callSelected := None\<rparr>)) \<and>
     (a = correct (callStep st) \<and> callIndex st + 1 = length callSteps \<longrightarrow>
        submitCall st = (None, st\<lparr>callComplete := True\<rparr>))"
  by (auto simp: submitCall_def length_callSteps)

theorem submitCall_cases_witness:
  "submitCall call_wrong_example = (Some NotQuiteTryAgain, call_wrong_example) \<and>
   submitCall call_right_example =
     (None, call_right_example\<lparr>callIndex := 1, callSelected := None\<rparr>) \<and>
   submitCall call_last_example = (None, call_last_example\<lparr>callComplete := True\<rparr>)"
proof -
  have w: "callSelected call_wrong_example = Some ''Put caller on hold immediately.''"
    "''Put caller on hold immediately.'' \<noteq> correct (callStep call_wrong_example)"
    by (simp_all add: call_wrong_example_def room_init_def callStep_def callSteps_def)
  have r: "callSelected call_right_example = Some ''Verify two identifiers (name + DOB).''"
    "correct (callStep call_right_example) = ''Verify two identifiers (name + DOB).''"
    "callIndex call_right_example + 1 < length callSteps"
    by (simp_all add: call_right_example_def room_init_def callStep_def callSteps_def)
  have l: "callSelected call_last_example = Some ''Confirm scope & delivery method, review ID/authorization, and give timeline following policy.''"
    "correct (callStep call_last_example) = ''Confirm scope & delivery method, review ID/authorization, and give timeline following policy.''"
    "callIndex call_last_example + 1 = length callSteps"
    by (simp_all add: call_last_example_def room_init_def callStep_def callSteps_def)
  from submitCall_cases[of call_wrong_example "''Put caller on hold immediately.''"] w
  have 1: "submitCall call_wrong_example = (Some NotQuiteTryAgain, call_wrong_example)"
    by simp
  from submitCall_cases[of call_right_example "''Verify two identifiers (name + DOB).''"] r
  have 2: "submitCall call_right_example =
     (None, call_right_example\<lparr>callIndex := callIndex call_right_example + 1, callSelected := None\<rparr>)"
    by simp
  from submitCall_cases[of call_last_example "''Confirm scope & delivery method, review ID/authorization, and give timeline following policy.''"] l
  have 3: "submitCall call_last_example = (None, call_last_example\<lparr>callComplete := True\<rparr>)"
    by simp
  from 1 2 3 show ?thesis by (simp add: call_right_example_def room_init_def)
qed

section \<open>Steps and sessions of the room\<close>

lemma coding_effect_fields:
  "callAnswered (coding_effect cs st) = callAnswered st"
  "callComplete (coding_effect cs st) = callComplete st"
  "codingOpen (coding_effect cs st) = codingOpen st"
  "auditOpen (coding_effect cs st) = auditOpen st"
  "auditDone (coding_effect cs st) = auditDone st"
  "callIndex (coding_effect cs st) = callIndex st"
  "callSelected (coding_effect cs st) = callSelected st"
  "codingAnswers (coding_effect cs st) = codingAnswers st"
  "auditSelected (coding_effect cs st) = auditSelected st"
  "openDoc (coding_effect cs st) = openDoc st"
  "docPage (coding_effect cs st) = docPage st"
  "pageSelections (coding_effect cs st) = pageSelections st"
  "foundIssues (coding_effect cs st) = foundIssues st"
  by (simp_all add: coding_effect_def)

lemma coding_effect_done:
  "codingDone (coding_effect cs st) \<longleftrightarrow>
     codingDone st \<or> (codingAllCorrect cs st \<and> codingOpen st)"
  by (cases "codingAllCorrect cs st \<and> codingOpen st") (auto simp: coding_effect_def)

lemma room_step_callIndex:
  "callIndex (room_step cs chs e st) =
     (if e = SubmitCall \<and> callAnswered st \<and> \<not> callComplete st
      then callIndex (snd (submitCall st)) else callIndex st)"
  by (cases e) (simp_all add: room_step_def room_handle_def coding_effect_fields
      setCodingAnswers_def toggleAudit_def handleAuditCheck_def selectOption_def Let_def
      split: option.splits)

lemma room_step_auditSelected:
  "auditSelected (room_step cs chs e st) =
     (case e of
        ToggleAudit i \<Rightarrow>
          if auditOpen st \<and> i \<in> set (map row_id chs)
          then auditSelected (toggleAudit i st) else auditSelected st
      | _ \<Rightarrow> auditSelected st)"
  by (cases e) (simp_all add: room_step_def room_handle_def coding_effect_fields
      setCodingAnswers_def submitCall_def handleAuditCheck_def selectOption_def Let_def
      split: option.splits)

lemma room_step_openDoc:
  "openDoc (room_step cs chs e st) =
     (case e of
        OpenDoc d \<Rightarrow> if auditOpen st \<and> d \<in> set chartDocs then Some d else openDoc st
      | CloseDoc \<Rightarrow> None
      | _ \<Rightarrow> openDoc st)"
  by (cases e) (simp_all add: room_step_def room_handle_def coding_effect_fields
      setCodingAnswers_def submitCall_def handleAuditCheck_def selectOption_def toggleAudit_def
      Let_def split: option.splits)

lemma room_step_docPage:
  "docPage (room_step cs chs e st) =
     (case e of
        OpenDoc d \<Rightarrow> if auditOpen st \<and> d \<in> set chartDocs then 0 else docPage st
      | PrevPage \<Rightarrow> if openDoc st \<noteq> None then docPage st - 1 else docPage st
      | NextPage \<Rightarrow>
          (case openDoc st of
             None \<Rightarrow> docPage st
           | Some d \<Rightarrow>
               if int (docPage st) \<noteq> int (length (pages d)) - 1
               then nat (min (int (length (pages d)) - 1) (int (docPage st) + 1))
               else docPage st)
      | _ \<Rightarrow> docPage st)"
  by (cases e) (auto simp: room_step_def room_handle_def coding_effect_fields
      setCodingAnswers_def submitCall_def handleAuditCheck_def selectOption_def toggleAudit_def
      Let_def split: option.splits)

lemma room_step_found:
  "(foundIssues (room_step cs chs e st), pageSelections (room_step cs chs e st)) =
     (case e of
        SelectOption rng n \<Rightarrow>
          (case openDoc st of
             None \<Rightarrow> (foundIssues st, pageSelections st)
           | Some d \<Rightarrow>
               if docPage st < length (pages d) \<and>
                  n < length (options rng d (pages d ! docPage st))
               then (foundIssues (selectOption d (pages d ! docPage st)
                        (options rng d (pages d ! docPage st) ! n) st),
                     pageSelections (selectOption d (pages d ! docPage st)
                        (options rng d (pages d ! docPage st) ! n) st))
               else (foundIssues st, pageSelections st))
      | _ \<Rightarrow> (foundIssues st, pageSelections st))"
  by (cases e) (simp_all add: room_step_def room_handle_def coding_effect_fields
      setCodingAnswers_def submitCall_def handleAuditCheck_def toggleAudit_def
      Let_def split: option.splits)

lemma mem_all_pages: "(d, pg) \<in> set all_pages \<longleftrightarrow> d \<in> set chartDocs \<and> pg \<in> set (pages d)"
  by (auto simp: all_pages_def)

lemma distinct_pageKeys: "distinct (map (\<lambda>(d, pg). pageKey d pg) all_pages)"
  by (simp add: all_pages_def chartDocs_def pageKey_def)

lemma pageKey_inj:
  assumes "(d, pg) \<in> set all_pages" "(d', pg') \<in> set all_pages" "pageKey d pg = pageKey d' pg'"
  shows "d = d' \<and> pg = pg'"
proof -
  have "inj_on (\<lambda>(d, pg). pageKey d pg) (set all_pages)"
    using distinct_pageKeys by (simp only: distinct_map)
  from inj_onD[OF this, of "(d, pg)" "(d', pg')"] assms show ?thesis by simp
qed

lemma pages_nonempty: "d \<in> set chartDocs \<Longrightarrow> pages d \<noteq> []"
proof -
  have "list_all (\<lambda>d. pages d \<noteq> []) chartDocs" by (simp add: chartDocs_def)
  then show "d \<in> set chartDocs \<Longrightarrow> pages d \<noteq> []" by (simp add: list_all_iff)
qed

lemma selectOption_found:
  "foundIssues (selectOption d pg opt st) =
     filter (\<lambda>k. k \<noteq> pageKey d pg) (foundIssues st) @
       (if opt_value opt = correctValue d pg then [pageKey d pg] else [])"
  by (simp add: selectOption_def Let_def)

lemma selectOption_selections:
  "pageSelections (selectOption d pg opt st) = (pageSelections st)(pageKey d pg \<mapsto> opt_value opt)"
  by (simp add: selectOption_def)

lemma selectOption_set:
  "set (foundIssues (selectOption d pg opt st)) =
     (set (foundIssues st) - {pageKey d pg}) \<union>
     (if opt_value opt = correctValue d pg then {pageKey d pg} else {})"
  by (auto simp: selectOption_found)

lemma selectOption_distinct:
  "distinct (foundIssues st) \<Longrightarrow> distinct (foundIssues (selectOption d pg opt st))"
  by (simp add: selectOption_found)

lemma selectOption_credit:
  assumes "credit_inv st" "(d, pg) \<in> set all_pages"
  shows "credit_inv (selectOption d pg opt st)"
  unfolding credit_inv_def list_all_iff
proof (intro ballI, clarify)
  fix d' pg' assume m: "(d', pg') \<in> set all_pages"
  from assms(1) m have old: "pageKey d' pg' \<in> set (foundIssues st) \<longleftrightarrow>
      pageSelections st (pageKey d' pg') = Some (correctValue d' pg')"
    unfolding credit_inv_def list_all_iff by blast
  show "pageKey d' pg' \<in> set (foundIssues (selectOption d pg opt st)) \<longleftrightarrow>
      pageSelections (selectOption d pg opt st) (pageKey d' pg') = Some (correctValue d' pg')"
  proof (cases "pageKey d' pg' = pageKey d pg")
    case True
    with pageKey_inj[OF m assms(2)] have "d' = d" "pg' = pg" by simp_all
    then show ?thesis by (auto simp: selectOption_set selectOption_selections)
  next
    case False
    with old show ?thesis by (simp add: selectOption_set selectOption_selections)
  qed
qed

lemma toggleAudit_inv:
  assumes "distinct (auditSelected st)" "set (auditSelected st) \<subseteq> S" "i \<in> S"
  shows "distinct (auditSelected (toggleAudit i st)) \<and> set (auditSelected (toggleAudit i st)) \<subseteq> S"
  using assms by (auto simp: toggleAudit_def Let_def)

lemma submitCall_callIndex:
  "callIndex st < length callSteps \<Longrightarrow> callIndex (snd (submitCall st)) < length callSteps"
  by (auto simp: submitCall_def)

lemma room_step_inv:
  assumes "room_inv chs st"
  shows "room_inv chs (room_step cs chs e st)"
proof -
  from assms have i1: "callIndex st < length callSteps"
    and i2: "distinct (auditSelected st)"
    and i3: "set (auditSelected st) \<subseteq> set (map row_id chs)"
    and i4: "distinct (foundIssues st)"
    and i5: "set (foundIssues st) \<subseteq> set (map (\<lambda>(d, pg). pageKey d pg) all_pages)"
    and i6: "case openDoc st of None \<Rightarrow> True
             | Some d \<Rightarrow> d \<in> set chartDocs \<and> docPage st < length (pages d)"
    and i7: "credit_inv st"
    by (simp_all add: room_inv_def)
  let ?st = "room_step cs chs e st"
  have c1: "callIndex ?st < length callSteps"
    using i1 submitCall_callIndex[OF i1] by (simp add: room_step_callIndex)
  have c23: "distinct (auditSelected ?st) \<and> set (auditSelected ?st) \<subseteq> set (map row_id chs)"
  proof (cases e)
    case (ToggleAudit i)
    then show ?thesis
      using i2 i3 toggleAudit_inv[OF i2 i3, of i] by (simp add: room_step_auditSelected)
  qed (use i2 i3 in \<open>simp_all add: room_step_auditSelected\<close>)
  have c6: "case openDoc ?st of None \<Rightarrow> True
             | Some d \<Rightarrow> d \<in> set chartDocs \<and> docPage ?st < length (pages d)"
    using i6 pages_nonempty
    by (cases e) (auto simp: room_step_openDoc room_step_docPage split: option.splits)
  have c457: "distinct (foundIssues ?st) \<and>
      set (foundIssues ?st) \<subseteq> set (map (\<lambda>(d, pg). pageKey d pg) all_pages) \<and>
      credit_inv ?st"
  proof (cases "foundIssues ?st = foundIssues st \<and> pageSelections ?st = pageSelections st")
    case True
    then have "credit_inv ?st = credit_inv st" by (simp add: credit_inv_def)
    with True i4 i5 i7 show ?thesis by simp
  next
    case False
    with room_step_found[of cs chs e st] obtain rng n d where
      e: "e = SelectOption rng n" and d: "openDoc st = Some d"
      and g: "docPage st < length (pages d)"
      and f: "foundIssues ?st = foundIssues (selectOption d (pages d ! docPage st)
                (options rng d (pages d ! docPage st) ! n) st)"
      and p: "pageSelections ?st = pageSelections (selectOption d (pages d ! docPage st)
                (options rng d (pages d ! docPage st) ! n) st)"
      by (auto split: room_event.splits option.splits if_splits)
    from i6 d have dd: "d \<in> set chartDocs" by simp
    with g have m: "(d, pages d ! docPage st) \<in> set all_pages"
      by (simp add: mem_all_pages)
    let ?s = "selectOption d (pages d ! docPage st) (options rng d (pages d ! docPage st) ! n) st"
    have "credit_inv ?st = credit_inv ?s" using f p by (simp add: credit_inv_def)
    moreover have "credit_inv ?s" using i7 m by (rule selectOption_credit)
    moreover have "distinct (foundIssues ?s)" using i4 by (rule selectOption_distinct)
    moreover have "set (foundIssues ?s) \<subseteq> set (map (\<lambda>(d, pg). pageKey d pg) all_pages)"
      using i5 m by (auto simp: selectOption_set split: if_splits)
    ultimately show ?thesis using f by simp
  qed
  from c1 c23 c6 c457 show ?thesis by (simp add: room_inv_def)
qed

lemma room_inv_init: "room_inv chs room_init"
  by (simp add: room_inv_def room_init_def credit_inv_def list_all_iff callSteps_def)

lemma room_run_inv_gen: "room_inv chs st \<Longrightarrow> room_inv chs (room_run cs chs es st)"
  by (induction es arbitrary: st) (simp_all add: room_step_inv)

lemma room_run_inv: "room_inv chs (room_run cs chs es room_init)"
  by (rule room_run_inv_gen[OF room_inv_init])

section \<open>The coding binder\<close>

lemma room_handle_codingDone: "codingDone (room_handle cs chs e st) = codingDone st"
  by (cases e) (simp_all add: room_handle_def setCodingAnswers_def submitCall_def
      handleAuditCheck_def toggleAudit_def selectOption_def Let_def split: option.splits)

lemma codingAllCorrect_effect:
  "codingAllCorrect cs (coding_effect cs' st) = codingAllCorrect cs st"
  by (simp add: codingAllCorrect_def coding_effect_fields)

lemma room_step_codingDone:
  "codingDone (room_step cs chs e st) \<longleftrightarrow>
     codingDone st \<or>
     (codingOpen (room_step cs chs e st) \<and> codingAllCorrect cs (room_step cs chs e st))"
  by (simp add: room_step_def coding_effect_done coding_effect_fields codingAllCorrect_effect
      room_handle_codingDone conj_commute)

lemma room_run_append:
  "room_run cs chs (es @ es') st = room_run cs chs es' (room_run cs chs es st)"
  by (induction es arbitrary: st) simp_all

lemma room_run_codingDone_mono:
  "codingDone st \<Longrightarrow> codingDone (room_run cs chs es st)"
  by (induction es arbitrary: st) (simp_all add: room_step_codingDone)

lemma room_run_codingDone:
  "codingDone (room_run cs chs es room_init) \<longleftrightarrow>
     (\<exists>n \<le> length es.
        codingOpen (room_run cs chs (take n es) room_init) \<and>
        codingAllCorrect cs (room_run cs chs (take n es) room_init))"
proof (induction es rule: rev_induct)
  case Nil
  then show ?case by (simp add: room_init_def)
next
  case (snoc e es)
  let ?P = "\<lambda>xs. codingOpen (room_run cs chs xs room_init) \<and>
                  codingAllCorrect cs (room_run cs chs xs room_init)"
  have "codingDone (room_run cs chs (es @ [e]) room_init) \<longleftrightarrow>
        codingDone (room_run cs chs es room_init) \<or> ?P (es @ [e])"
    by (simp add: room_run_append room_step_codingDone)
  also have "\<dots> \<longleftrightarrow> (\<exists>n \<le> length es. ?P (take n es)) \<or> ?P (es @ [e])"
    by (simp only: snoc.IH)
  also have "\<dots> \<longleftrightarrow> (\<exists>n \<le> length (es @ [e]). ?P (take n (es @ [e])))"
  proof
    assume "(\<exists>n \<le> length es. ?P (take n es)) \<or> ?P (es @ [e])"
    then show "\<exists>n \<le> length (es @ [e]). ?P (take n (es @ [e]))"
    proof
      assume "\<exists>n \<le> length es. ?P (take n es)"
      then obtain n where "n \<le> length es" "?P (take n es)" by blast
      then have "n \<le> length (es @ [e])" "?P (take n (es @ [e]))" by simp_all
      then show ?thesis by blast
    next
      assume "?P (es @ [e])"
      then have "?P (take (length (es @ [e])) (es @ [e]))" by simp
      then show ?thesis by blast
    qed
  next
    assume "\<exists>n \<le> length (es @ [e]). ?P (take n (es @ [e]))"
    then obtain n where n: "n \<le> length (es @ [e])" "?P (take n (es @ [e]))" by blast
    show "(\<exists>n \<le> length es. ?P (take n es)) \<or> ?P (es @ [e])"
    proof (cases "n \<le> length es")
      case True
      with n(2) have "?P (take n es)" by simp
      with True show ?thesis by blast
    next
      case False
      with n(1) have "n = length (es @ [e])" by simp
      with n(2) show ?thesis by simp
    qed
  qed
  finally show ?case .
qed

text \<open>
  Claim C7, amended: the binder becomes done when, with the binder open, the stored
  (last-submitted) answer of every case equals the correct answer of the case, and it
  then stays done for the rest of the session, whatever is answered later.  An event
  leaves the binder done exactly when it was done before or the binder is open with all
  stored answers correct after the event; in a session from the initial state the binder
  is done exactly when that held after some prefix of the events; an answer to a case
  overwrites the stored answer of that case.
\<close>

theorem binder_done_latch:
  "(codingDone (room_step cs chs e st) \<longleftrightarrow>
      codingDone st \<or>
      (codingOpen (room_step cs chs e st) \<and> codingAllCorrect cs (room_step cs chs e st))) \<and>
   (codingDone (room_run cs chs es room_init) \<longleftrightarrow>
      (\<exists>n \<le> length es.
         codingOpen (room_run cs chs (take n es) room_init) \<and>
         codingAllCorrect cs (room_run cs chs (take n es) room_init))) \<and>
   (codingDone st \<longrightarrow> codingDone (room_run cs chs es st)) \<and>
   codingAnswers (setCodingAnswers cid ch st) = (codingAnswers st)(cid \<mapsto> ch) \<and>
   (codingAllCorrect cs st \<longleftrightarrow>
      cs \<noteq> [] \<and> (\<forall>c \<in> set cs. codingAnswers st (cc_id c) = Some (cc_correct c)))"
proof (intro conjI)
  show "codingDone (room_step cs chs e st) \<longleftrightarrow>
      codingDone st \<or>
      (codingOpen (room_step cs chs e st) \<and> codingAllCorrect cs (room_step cs chs e st))"
    by (rule room_step_codingDone)
  show "codingDone (room_run cs chs es room_init) \<longleftrightarrow>
      (\<exists>n \<le> length es.
         codingOpen (room_run cs chs (take n es) room_init) \<and>
         codingAllCorrect cs (room_run cs chs (take n es) room_init))"
    by (rule room_run_codingDone)
  show "codingDone st \<longrightarrow> codingDone (room_run cs chs es st)"
    by (simp add: room_run_codingDone_mono)
  show "codingAnswers (setCodingAnswers cid ch st) = (codingAnswers st)(cid \<mapsto> ch)"
    by (simp add: setCodingAnswers_def)
  show "codingAllCorrect cs st \<longleftrightarrow>
      cs \<noteq> [] \<and> (\<forall>c \<in> set cs. codingAnswers st (cc_id c) = Some (cc_correct c))"
    by (simp add: codingAllCorrect_def list_all_iff)
qed

lemma shuffle_zero3: "shuffle (\<lambda>k. 0) [a0, a1, a2] = [a1, a2, a0]"
  by (simp add: shuffle_def eval_nat_numeral)

lemma shuffle_zero4: "shuffle (\<lambda>k. 0) [a0, a1, a2, a3] = [a1, a2, a3, a0]"
  by (simp add: shuffle_def eval_nat_numeral)

lemma after_draws_zero: "after_draws n (\<lambda>k. 0) = (\<lambda>k. 0)"
  by (simp add: after_draws_def)

lemma codingCases_zero:
  "codingCases (\<lambda>k. 0) =
    [\<lparr>cc_id = ''A2'',
      cc_choices = [''99203 + J06.9'', ''99212 + Z76.0'', ''99213 + I10''],
      cc_correct = ''99213 + I10''\<rparr>,
     \<lparr>cc_id = ''B1'',
      cc_choices = [''99213 + I10'', ''99204 + J45.909'', ''99203 + J06.9''],
      cc_correct = ''99203 + J06.9''\<rparr>,
     \<lparr>cc_id = ''B2'',
      cc_choices = [''99214 + J06.9'', ''99212 + Z20.822'', ''99203 + J06.9''],
      cc_correct = ''99203 + J06.9''\<rparr>,
     \<lparr>cc_id = ''A1'',
      cc_choices = [''99203 + J06.9'', ''99214 + E11.9'', ''99213 + I10''],
      cc_correct = ''99213 + I10''\<rparr>]"
  by (simp add: codingCases_def after_draws_zero shuffle_zero3 shuffle_zero4)

lemma binder_example_run:
  "room_run (codingCases (\<lambda>k. 0)) chs binder_example_events room_init =
     \<lparr>callAnswered = True, callComplete = True, codingOpen = True, auditOpen = False,
      codingDone = True, auditDone = False, callIndex = 2,
      callSelected = Some (correct (callSteps ! 2)),
      codingAnswers = [''A1'' \<mapsto> ''99213 + I10'', ''A2'' \<mapsto> ''99213 + I10'',
                       ''B1'' \<mapsto> ''99203 + J06.9'', ''B2'' \<mapsto> ''99203 + J06.9'',
                       ''A1'' \<mapsto> ''99203 + J06.9''],
      auditSelected = [], openDoc = None, docPage = 0,
      pageSelections = Map.empty, foundIssues = []\<rparr>"
  by (simp add: binder_example_events_def room_step_def room_handle_def coding_effect_def
      codingAllCorrect_def codingCases_zero submitCall_def callStep_def callSteps_def
      setCodingAnswers_def room_init_def rsquo_def)

text \<open>
  Claim C7 says that the binder is done if and only if the last answer submitted for
  every case is the correct one.  It is not: \<open>codingDone\<close> is set by an effect and
  never reset.  In the session \<open>binder_example_events\<close> the learner answers the four
  cases correctly, so the binder becomes done, and then answers case A1 again, wrongly:
  the binder is still done, and the last answer of A1 is wrong.
\<close>

theorem binder_done_with_wrong_answer:
  "codingDone (room_run (codingCases (\<lambda>k. 0)) (charts (\<lambda>k. 0)) binder_example_events room_init) \<and>
   codingAnswers (room_run (codingCases (\<lambda>k. 0)) (charts (\<lambda>k. 0)) binder_example_events room_init)
     ''A1'' = Some ''99203 + J06.9'' \<and>
   \<not> codingAllCorrect (codingCases (\<lambda>k. 0))
       (room_run (codingCases (\<lambda>k. 0)) (charts (\<lambda>k. 0)) binder_example_events room_init)"
  unfolding binder_example_run by (simp add: codingAllCorrect_def codingCases_zero)

theorem binder_done_latch_witness:
  "codingDone binder_done_example \<and>
   codingDone (room_run (codingCases (\<lambda>k. 0)) (charts (\<lambda>k. 0))
      [AnswerCoding ''A1'' ''99203 + J06.9'', CloseCoding] binder_done_example) \<and>
   codingDone (room_run (codingCases (\<lambda>k. 0)) (charts (\<lambda>k. 0)) binder_example_events room_init) \<and>
   (\<exists>n \<le> length binder_example_events.
      codingOpen (room_run (codingCases (\<lambda>k. 0)) (charts (\<lambda>k. 0))
         (take n binder_example_events) room_init) \<and>
      codingAllCorrect (codingCases (\<lambda>k. 0))
        (room_run (codingCases (\<lambda>k. 0)) (charts (\<lambda>k. 0))
           (take n binder_example_events) room_init))"
proof -
  have d: "codingDone binder_done_example"
    by (simp add: binder_done_example_def)
  have r: "codingDone (room_run (codingCases (\<lambda>k. 0)) (charts (\<lambda>k. 0))
      binder_example_events room_init)"
    unfolding binder_example_run by simp
  from binder_done_latch[of "codingCases (\<lambda>k. 0)" "charts (\<lambda>k. 0)" _ binder_done_example
      "[AnswerCoding ''A1'' ''99203 + J06.9'', CloseCoding]"] d
  have 1: "codingDone (room_run (codingCases (\<lambda>k. 0)) (charts (\<lambda>k. 0))
      [AnswerCoding ''A1'' ''99203 + J06.9'', CloseCoding] binder_done_example)"
    by blast
  from binder_done_latch[of "codingCases (\<lambda>k. 0)" "charts (\<lambda>k. 0)" _ _
      binder_example_events] r
  have 2: "\<exists>n \<le> length binder_example_events.
      codingOpen (room_run (codingCases (\<lambda>k. 0)) (charts (\<lambda>k. 0))
         (take n binder_example_events) room_init) \<and>
      codingAllCorrect (codingCases (\<lambda>k. 0))
        (room_run (codingCases (\<lambda>k. 0)) (charts (\<lambda>k. 0))
           (take n binder_example_events) room_init)"
    by blast
  from d r 1 2 show ?thesis by blast
qed

section \<open>A session of the chart audit\<close>

lemma audit_run_call:
  "room_run cs chs
    [AnswerPhone,
     SelectCall ''Put caller on hold immediately.'', SubmitCall,
     SelectCall (correct (callSteps ! 0)), SubmitCall,
     SelectCall (correct (callSteps ! 1)), SubmitCall,
     SelectCall (correct (callSteps ! 2)), SubmitCall] room_init = after_call"
  by (simp add: room_step_def room_handle_def coding_effect_def
      codingAllCorrect_def submitCall_def callStep_def callSteps_def
      room_init_def rsquo_def after_call_def)

lemma chart_ids_zero: "row_id ` set (charts (\<lambda>k. 0)) = row_id ` set charts_base"
  using charts_ids[OF unit_rng_zero] by simp

lemma handleAuditCheck_zero:
  "handleAuditCheck (charts (\<lambda>k. 0)) st = handleAuditCheck charts_base st"
  by (rule handleAuditCheck_charts[OF unit_rng_zero])

lemma handleAuditCheck_zero_unfold:
  "handleAuditCheck (charts (\<lambda>k. 0)) st =
     (let picked = filter (\<lambda>c. row_id c \<in> set (auditSelected st)) charts_base
      in if length picked \<noteq> 2 then (Some SelectExactlyTwo, st)
         else let bothCorrect = list_all isDefect picked
              in if \<not> bothCorrect then (Some NotQuiteReview, st)
                 else if length (foundIssues st) < 3 then (Some NowOpenCharts, st)
                 else (None, st\<lparr>auditDone := True\<rparr>))"
  by (subst handleAuditCheck_zero) (simp only: handleAuditCheck_def)

lemma audit_run_toggles:
  "room_run cs (charts (\<lambda>k. 0))
    [OpenAudit, ToggleAudit ''4'', ToggleAudit ''5'', ToggleAudit ''4'', ToggleAudit ''3'',
     AuditCheck]
    after_call = after_toggles"
  by (simp add: room_step_def room_handle_def coding_effect_def
      codingAllCorrect_def after_call_def after_toggles_def toggleAudit_def chart_ids_zero
      handleAuditCheck_zero_unfold charts_base_def)

lemma options_zero:
  "options (\<lambda>k. 0) d pg =
     (case realOption d pg of
        Some ro \<Rightarrow> [ro, fakeOption (\<lambda>k. 0) d pg, noIssuesOption d pg]
      | None \<Rightarrow>
          [fakeOption (\<lambda>k. 0) d pg,
           \<lparr>opt_label = ''Wrong MRN'', opt_value = doc_id d @ '':'' @ page_id pg @ '':fake2''\<rparr>,
           noIssuesOption d pg])"
  by (simp add: options_def baseOptions_def after_draws_zero shuffle_zero3 split: option.splits)

lemma opt_value_fakeOption:
  "opt_value (fakeOption rng d pg) = doc_id d @ '':'' @ page_id pg @ '':fake''"
  by (simp add: fakeOption_def)

lemma audit_run_first_doc:
  "room_run cs chs
    [OpenDoc (chartDocs ! 0), SelectOption (\<lambda>k. 0) 2, NextPage, NextPage,
     SelectOption (\<lambda>k. 0) 2, SelectOption (\<lambda>k. 0) 0, CloseDoc]
    after_toggles = after_first_doc"
  by (simp add: room_step_def room_handle_def coding_effect_def
      codingAllCorrect_def after_call_def after_toggles_def after_first_doc_def chartDocs_def
      options_zero realOption_def realIssue_def noIssuesOption_def opt_value_fakeOption
      selectOption_def pageKey_def correctValue_def)

lemma audit_run_second_doc:
  "room_run cs chs [OpenDoc (chartDocs ! 2), SelectOption (\<lambda>k. 0) 0, CloseDoc]
     after_first_doc = audit_example"
  by (simp add: room_step_def room_handle_def coding_effect_def
      codingAllCorrect_def after_call_def after_toggles_def after_first_doc_def
      audit_example_def chartDocs_def
      options_zero realOption_def realIssue_def noIssuesOption_def opt_value_fakeOption
      selectOption_def pageKey_def correctValue_def)

lemma audit_run_check:
  "room_run cs (charts (\<lambda>k. 0)) [AuditCheck] audit_example = audit_example\<lparr>auditDone := True\<rparr>"
  by (simp add: room_step_def room_handle_def coding_effect_def
      codingAllCorrect_def after_call_def after_toggles_def after_first_doc_def
      audit_example_def handleAuditCheck_zero_unfold charts_base_def)

lemma audit_example_reached:
  "room_run cs (charts (\<lambda>k. 0)) audit_example_events room_init = audit_example"
proof -
  have e: "audit_example_events =
    [AnswerPhone,
     SelectCall ''Put caller on hold immediately.'', SubmitCall,
     SelectCall (correct (callSteps ! 0)), SubmitCall,
     SelectCall (correct (callSteps ! 1)), SubmitCall,
     SelectCall (correct (callSteps ! 2)), SubmitCall] @
    [OpenAudit, ToggleAudit ''4'', ToggleAudit ''5'', ToggleAudit ''4'', ToggleAudit ''3'',
     AuditCheck] @
    [OpenDoc (chartDocs ! 0), SelectOption (\<lambda>k. 0) 2, NextPage, NextPage,
     SelectOption (\<lambda>k. 0) 2, SelectOption (\<lambda>k. 0) 0, CloseDoc] @
    [OpenDoc (chartDocs ! 2), SelectOption (\<lambda>k. 0) 0, CloseDoc]"
    by (simp add: audit_example_events_def)
  show ?thesis
    unfolding e by (simp only: room_run_append audit_run_call audit_run_toggles audit_run_first_doc audit_run_second_doc)
qed

lemma audit_example_done:
  "room_run cs (charts (\<lambda>k. 0)) (audit_example_events @ [AuditCheck]) room_init =
     audit_example\<lparr>auditDone := True\<rparr>"
  by (simp only: room_run_append audit_example_reached audit_run_check)

section \<open>The document viewer\<close>

lemma issue_ids_no_colon:
  assumes "d \<in> set chartDocs" "i \<in> set (issues d)"
  shows "CHR '':'' \<notin> set (issue_id i)"
proof -
  have "list_all (\<lambda>d. list_all (\<lambda>i. CHR '':'' \<notin> set (issue_id i)) (issues d)) chartDocs"
    by (simp add: chartDocs_def)
  with assms show ?thesis by (simp add: list_all_iff)
qed

lemma realIssue_mem: "realIssue d pg = Some i \<Longrightarrow> i \<in> set (issues d)"
  by (auto simp: realIssue_def find_Some_iff)

lemma options_set: "unit_rng rng \<Longrightarrow> set (options rng d pg) = set (baseOptions rng d pg)"
  by (simp add: options_def shuffle_set unit_rng_after_draws)

lemma correctOption_value: "opt_value (correctOption d pg) = correctValue d pg"
  by (simp add: correctOption_def realOption_def correctValue_def noIssuesOption_def
      split: option.splits)

lemma correctOption_mem: "correctOption d pg \<in> set (baseOptions rng d pg)"
  by (simp add: correctOption_def baseOptions_def split: option.splits)

lemma correctOption_unique:
  assumes "d \<in> set chartDocs" "opt \<in> set (baseOptions rng d pg)"
    "opt_value opt = correctValue d pg"
  shows "opt = correctOption d pg"
proof (cases "realIssue d pg")
  case None
  with assms(2,3) show ?thesis
    by (auto simp: baseOptions_def realOption_def correctOption_def correctValue_def
        noIssuesOption_def fakeOption_def)
next
  case (Some i)
  from issue_ids_no_colon[OF assms(1) realIssue_mem[OF Some]]
  have n: "issue_id i \<noteq> page_id pg @ '':none''" "issue_id i \<noteq> page_id pg @ '':fake''"
    by auto
  with Some assms(2,3) show ?thesis
    by (auto simp: baseOptions_def realOption_def correctOption_def correctValue_def
        noIssuesOption_def fakeOption_def)
qed

lemma selectOption_other:
  assumes "(d, pg) \<in> set all_pages" "(d', pg') \<in> set all_pages" "(d', pg') \<noteq> (d, pg)"
  shows "pageKey d' pg' \<in> set (foundIssues (selectOption d pg opt st)) \<longleftrightarrow>
         pageKey d' pg' \<in> set (foundIssues st)"
proof -
  from pageKey_inj[OF assms(2,1)] assms(3) have "pageKey d' pg' \<noteq> pageKey d pg" by blast
  then show ?thesis by (simp add: selectOption_set)
qed

lemma room_run_credit:
  assumes "d \<in> set chartDocs" "pg \<in> set (pages d)"
  shows "pageKey d pg \<in> set (foundIssues (room_run cs chs es room_init)) \<longleftrightarrow>
         pageSelections (room_run cs chs es room_init) (pageKey d pg) = Some (correctValue d pg)"
proof -
  have "credit_inv (room_run cs chs es room_init)"
    using room_run_inv[of chs cs es] by (simp add: room_inv_def)
  moreover have "(d, pg) \<in> set all_pages" using assms by (simp add: mem_all_pages)
  ultimately show ?thesis unfolding credit_inv_def list_all_iff by blast
qed

lemma find_distinct_key:
  assumes "distinct (map f xs)" "x \<in> set xs"
  shows "find (\<lambda>y. f y = f x) xs = Some x"
  using assms
proof (induction xs)
  case Nil
  then show ?case by simp
next
  case (Cons a xs)
  show ?case
  proof (cases "a = x")
    case True
    then show ?thesis by simp
  next
    case False
    with Cons.prems have x: "x \<in> set xs" by simp
    with Cons.prems(1) have "f a \<noteq> f x" by auto
    with Cons.IH x Cons.prems(1) show ?thesis by simp
  qed
qed

lemma issues_distinct: "d \<in> set chartDocs \<Longrightarrow> distinct (map pageId (issues d))"
proof -
  have "list_all (\<lambda>d. distinct (map pageId (issues d))) chartDocs"
    by (simp add: chartDocs_def)
  then show "d \<in> set chartDocs \<Longrightarrow> distinct (map pageId (issues d))"
    by (simp add: list_all_iff)
qed

lemma realIssue_of_page:
  assumes "d \<in> set chartDocs" "i \<in> set (issues d)" "pageId i = page_id pg"
  shows "realIssue d pg = Some i"
proof -
  from find_distinct_key[OF issues_distinct[OF assms(1)] assms(2)]
  show ?thesis by (simp add: realIssue_def assms(3))
qed

lemma realIssue_none:
  assumes "\<forall>i \<in> set (issues d). pageId i \<noteq> page_id pg"
  shows "realIssue d pg = None"
  using assms by (simp add: realIssue_def find_None_iff)

text \<open>
  Claim C6: on every page of every document, the option whose value counts as correct
  is the real issue of the page when the page has one and the no-issues option
  otherwise.  The real issue of a page is the issue of the document whose \<open>pageId\<close>
  is the \<open>id\<close> of the page: every issue of the document recorded for the page is
  the one found, its value \<open>docId:issueId\<close> is the correct value and the option made of
  it is the correct option; when no issue of the document is recorded for the page,
  the correct value is \<open>docId:pageId:none\<close> and the correct option is the no-issues
  option.  The correct option is one of the three options shown, and no other option
  shown has the correct value.  Selecting an option credits the page exactly when the
  option's value is the correct one and changes the credit of no other page, so a
  second selection on the same page replaces the result of the first; and in every
  state a session reaches, a page is credited exactly when the selection stored for it
  is the correct value.
\<close>

theorem page_grading:
  assumes "unit_rng rng" and "d \<in> set chartDocs" and "pg \<in> set (pages d)"
  shows "correctOption d pg \<in> set (options rng d pg) \<and>
    correctOption d pg =
      (case realIssue d pg of
         Some i \<Rightarrow> \<lparr>opt_label = issue_label i, opt_value = doc_id d @ '':'' @ issue_id i\<rparr>
       | None \<Rightarrow> noIssuesOption d pg) \<and>
    (\<forall>i \<in> set (issues d). pageId i = page_id pg \<longrightarrow>
       realIssue d pg = Some i \<and>
       correctValue d pg = doc_id d @ '':'' @ issue_id i \<and>
       correctOption d pg =
         \<lparr>opt_label = issue_label i, opt_value = doc_id d @ '':'' @ issue_id i\<rparr>) \<and>
    ((\<forall>i \<in> set (issues d). pageId i \<noteq> page_id pg) \<longrightarrow>
       realIssue d pg = None \<and>
       correctValue d pg = doc_id d @ '':'' @ page_id pg @ '':none'' \<and>
       correctOption d pg =
         \<lparr>opt_label = ''No issues on this page'',
          opt_value = doc_id d @ '':'' @ page_id pg @ '':none''\<rparr>) \<and>
    (\<forall>opt \<in> set (options rng d pg).
       opt_value opt = correctValue d pg \<longleftrightarrow> opt = correctOption d pg) \<and>
    (pageKey d pg \<in> set (foundIssues (selectOption d pg opt st)) \<longleftrightarrow>
       opt_value opt = correctValue d pg) \<and>
    (\<forall>(d', pg') \<in> set all_pages. (d', pg') \<noteq> (d, pg) \<longrightarrow>
       (pageKey d' pg' \<in> set (foundIssues (selectOption d pg opt st)) \<longleftrightarrow>
        pageKey d' pg' \<in> set (foundIssues st))) \<and>
    (pageKey d pg \<in> set (foundIssues (selectOption d pg opt' (selectOption d pg opt st))) \<longleftrightarrow>
       opt_value opt' = correctValue d pg) \<and>
    (pageKey d pg \<in> set (foundIssues (room_run cs chs es room_init)) \<longleftrightarrow>
       pageSelections (room_run cs chs es room_init) (pageKey d pg) = Some (correctValue d pg))"
proof (intro conjI)
  show "correctOption d pg \<in> set (options rng d pg)"
    by (simp add: options_set[OF assms(1)] correctOption_mem)
  show "correctOption d pg =
      (case realIssue d pg of
         Some i \<Rightarrow> \<lparr>opt_label = issue_label i, opt_value = doc_id d @ '':'' @ issue_id i\<rparr>
       | None \<Rightarrow> noIssuesOption d pg)"
    by (simp add: correctOption_def realOption_def split: option.splits)
  show "\<forall>i \<in> set (issues d). pageId i = page_id pg \<longrightarrow>
       realIssue d pg = Some i \<and>
       correctValue d pg = doc_id d @ '':'' @ issue_id i \<and>
       correctOption d pg =
         \<lparr>opt_label = issue_label i, opt_value = doc_id d @ '':'' @ issue_id i\<rparr>"
  proof (intro ballI impI)
    fix i assume "i \<in> set (issues d)" "pageId i = page_id pg"
    with assms(2) have "realIssue d pg = Some i" by (rule realIssue_of_page)
    then show "realIssue d pg = Some i \<and>
       correctValue d pg = doc_id d @ '':'' @ issue_id i \<and>
       correctOption d pg =
         \<lparr>opt_label = issue_label i, opt_value = doc_id d @ '':'' @ issue_id i\<rparr>"
      by (simp add: correctValue_def correctOption_def realOption_def)
  qed
  show "(\<forall>i \<in> set (issues d). pageId i \<noteq> page_id pg) \<longrightarrow>
       realIssue d pg = None \<and>
       correctValue d pg = doc_id d @ '':'' @ page_id pg @ '':none'' \<and>
       correctOption d pg =
         \<lparr>opt_label = ''No issues on this page'',
          opt_value = doc_id d @ '':'' @ page_id pg @ '':none''\<rparr>"
  proof
    assume "\<forall>i \<in> set (issues d). pageId i \<noteq> page_id pg"
    then have "realIssue d pg = None" by (rule realIssue_none)
    then show "realIssue d pg = None \<and>
       correctValue d pg = doc_id d @ '':'' @ page_id pg @ '':none'' \<and>
       correctOption d pg =
         \<lparr>opt_label = ''No issues on this page'',
          opt_value = doc_id d @ '':'' @ page_id pg @ '':none''\<rparr>"
      by (simp add: correctValue_def correctOption_def realOption_def noIssuesOption_def)
  qed
  show "\<forall>opt \<in> set (options rng d pg).
       opt_value opt = correctValue d pg \<longleftrightarrow> opt = correctOption d pg"
    unfolding options_set[OF assms(1)]
    using correctOption_unique[OF assms(2)] correctOption_value by blast
  show "pageKey d pg \<in> set (foundIssues (selectOption d pg opt st)) \<longleftrightarrow>
       opt_value opt = correctValue d pg"
    by (simp add: selectOption_set)
  have m: "(d, pg) \<in> set all_pages" using assms(2,3) by (simp add: mem_all_pages)
  show "\<forall>(d', pg') \<in> set all_pages. (d', pg') \<noteq> (d, pg) \<longrightarrow>
       (pageKey d' pg' \<in> set (foundIssues (selectOption d pg opt st)) \<longleftrightarrow>
        pageKey d' pg' \<in> set (foundIssues st))"
    using selectOption_other[OF m] by blast
  show "pageKey d pg \<in> set (foundIssues (selectOption d pg opt' (selectOption d pg opt st))) \<longleftrightarrow>
       opt_value opt' = correctValue d pg"
    by (simp add: selectOption_set)
  show "pageKey d pg \<in> set (foundIssues (room_run cs chs es room_init)) \<longleftrightarrow>
       pageSelections (room_run cs chs es room_init) (pageKey d pg) = Some (correctValue d pg)"
    using assms(2,3) by (rule room_run_credit)
qed


text \<open>
  Claim C10: \<open>foundIssues\<close> never holds a page key twice.  In every state a session
  reaches it is duplicate-free, so its length is the number of distinct credited pages,
  all of them pages of the documents, and at most the number of pages; the selection
  handler keeps it duplicate-free, leaves the key of the page at most once, and
  selecting the same option again changes nothing.
\<close>

theorem foundIssues_no_duplicates:
  "distinct (foundIssues (room_run cs chs es room_init)) \<and>
   length (foundIssues (room_run cs chs es room_init)) =
     card (set (foundIssues (room_run cs chs es room_init))) \<and>
   set (foundIssues (room_run cs chs es room_init)) \<subseteq>
     set (map (\<lambda>(d, pg). pageKey d pg) all_pages) \<and>
   length (foundIssues (room_run cs chs es room_init)) \<le> length all_pages \<and>
   (distinct (foundIssues st) \<longrightarrow> distinct (foundIssues (selectOption d pg opt st))) \<and>
   count_list (foundIssues (selectOption d pg opt st)) (pageKey d pg) \<le> 1 \<and>
   foundIssues (selectOption d pg opt (selectOption d pg opt st)) =
     foundIssues (selectOption d pg opt st)"
proof -
  let ?f = "foundIssues (room_run cs chs es room_init)"
  from room_run_inv[of chs cs es]
  have d: "distinct ?f" and s: "set ?f \<subseteq> set (map (\<lambda>(d, pg). pageKey d pg) all_pages)"
    by (simp_all add: room_inv_def)
  from d have c: "length ?f = card (set ?f)" by (simp add: distinct_card)
  have "card (set ?f) \<le> card (set (map (\<lambda>(d, pg). pageKey d pg) all_pages))"
    using s by (intro card_mono) simp_all
  also have "\<dots> \<le> length (map (\<lambda>(d, pg). pageKey d pg) all_pages)" by (rule card_length)
  finally have l: "length ?f \<le> length all_pages" using c by simp
  have cnt: "count_list (foundIssues (selectOption d pg opt st)) (pageKey d pg) \<le> 1"
    by (simp add: selectOption_found count_list_0_iff)
  have idem: "foundIssues (selectOption d pg opt (selectOption d pg opt st)) =
     foundIssues (selectOption d pg opt st)"
    by (simp add: selectOption_found)
  from d c s l cnt idem selectOption_distinct[of st d pg opt] show ?thesis by blast
qed

lemma example_doc_mem: "example_doc \<in> set chartDocs"
  by (simp add: example_doc_def chartDocs_def)

lemma example_page_mem: "example_page \<in> set (pages example_doc)"
  by (simp add: example_page_def example_doc_def chartDocs_def)

lemma example_first_page_mem: "(example_doc, pages example_doc ! 0) \<in> set all_pages"
  unfolding mem_all_pages by (simp add: example_doc_def chartDocs_def)

lemma example_values:
  "correctValue example_doc example_page = ''D1:i1''"
  "opt_value (noIssuesOption example_doc example_page) = ''D1:p3:none''"
  "pageKey example_doc example_page = ''D1:p3''"
  "pageKey example_doc (pages example_doc ! 0) = ''D1:p1''"
  "pages example_doc ! 0 \<noteq> example_page"
  by (simp_all add: example_doc_def example_page_def chartDocs_def correctValue_def
      realIssue_def noIssuesOption_def pageKey_def)

lemma example_first_page: "pages example_doc ! 0 \<in> set (pages example_doc)"
  by (simp add: example_doc_def chartDocs_def)

lemma example_issue:
  "\<lparr>issue_id = ''i1'', pageId = ''p3'', issue_label = ''Missing provider signature''\<rparr>
     \<in> set (issues example_doc)"
  "pageId \<lparr>issue_id = ''i1'', pageId = ''p3'', issue_label = ''Missing provider signature''\<rparr>
     = page_id example_page"
  "\<forall>i \<in> set (issues example_doc). pageId i \<noteq> page_id (pages example_doc ! 0)"
  "doc_id example_doc = ''D1''"
  "page_id (pages example_doc ! 0) = ''p1''"
  by (simp_all add: example_doc_def example_page_def chartDocs_def)

theorem page_grading_witness:
  "unit_rng (\<lambda>k. 0) \<and> example_doc \<in> set chartDocs \<and> example_page \<in> set (pages example_doc) \<and>
   pages example_doc ! 0 \<in> set (pages example_doc) \<and>
   pageKey example_doc example_page = ''D1:p3'' \<and>
   realIssue example_doc example_page =
     Some \<lparr>issue_id = ''i1'', pageId = ''p3'', issue_label = ''Missing provider signature''\<rparr> \<and>
   correctValue example_doc example_page = ''D1:i1'' \<and>
   correctOption example_doc example_page \<in> set (options (\<lambda>k. 0) example_doc example_page) \<and>
   correctOption example_doc example_page =
     \<lparr>opt_label = ''Missing provider signature'', opt_value = ''D1:i1''\<rparr> \<and>
   realIssue example_doc (pages example_doc ! 0) = None \<and>
   correctValue example_doc (pages example_doc ! 0) = ''D1:p1:none'' \<and>
   correctOption example_doc (pages example_doc ! 0) =
     \<lparr>opt_label = ''No issues on this page'', opt_value = ''D1:p1:none''\<rparr> \<and>
   pageKey example_doc example_page \<in> set (foundIssues
      (selectOption example_doc example_page (correctOption example_doc example_page) room_init)) \<and>
   pageKey example_doc example_page \<notin> set (foundIssues
      (selectOption example_doc example_page (noIssuesOption example_doc example_page)
        (selectOption example_doc example_page (correctOption example_doc example_page)
           room_init))) \<and>
   pageKey example_doc (pages example_doc ! 0) \<in> set (foundIssues
      (selectOption example_doc example_page (noIssuesOption example_doc example_page)
         audit_example)) \<and>
   pageKey example_doc example_page \<in> set (foundIssues
      (room_run (codingCases (\<lambda>k. 0)) (charts (\<lambda>k. 0)) audit_example_events room_init))"
proof -
  let ?K = "pageKey example_doc example_page"
  let ?CO = "correctOption example_doc example_page"
  let ?NO = "noIssuesOption example_doc example_page"
  let ?I = "\<lparr>issue_id = ''i1'', pageId = ''p3'', issue_label = ''Missing provider signature''\<rparr>"
  let ?P = "pages example_doc ! 0"
  let ?run = "room_run (codingCases (\<lambda>k. 0)) (charts (\<lambda>k. 0)) audit_example_events room_init"
  note g1 = page_grading[OF unit_rng_zero example_doc_mem example_page_mem,
      of ?CO room_init ?NO "codingCases (\<lambda>k. 0)" "charts (\<lambda>k. 0)" audit_example_events]
  note g2 = page_grading[OF unit_rng_zero example_doc_mem example_page_mem,
      of ?NO audit_example]
  note g3 = page_grading[OF unit_rng_zero example_doc_mem example_first_page]
  from g1 have "\<forall>i \<in> set (issues example_doc). pageId i = page_id example_page \<longrightarrow>
       realIssue example_doc example_page = Some i \<and>
       correctValue example_doc example_page = doc_id example_doc @ '':'' @ issue_id i \<and>
       ?CO = \<lparr>opt_label = issue_label i, opt_value = doc_id example_doc @ '':'' @ issue_id i\<rparr>"
    by blast
  with example_issue(1,2)
  have "realIssue example_doc example_page = Some ?I \<and>
       correctValue example_doc example_page = doc_id example_doc @ '':'' @ issue_id ?I \<and>
       ?CO = \<lparr>opt_label = issue_label ?I, opt_value = doc_id example_doc @ '':'' @ issue_id ?I\<rparr>"
    by blast
  then have r: "realIssue example_doc example_page = Some ?I"
    and c: "correctValue example_doc example_page = ''D1:i1''"
    and 2: "?CO = \<lparr>opt_label = ''Missing provider signature'', opt_value = ''D1:i1''\<rparr>"
    unfolding example_issue(4) by simp_all
  from g3 have "(\<forall>i \<in> set (issues example_doc). pageId i \<noteq> page_id ?P) \<longrightarrow>
       realIssue example_doc ?P = None \<and>
       correctValue example_doc ?P = doc_id example_doc @ '':'' @ page_id ?P @ '':none'' \<and>
       correctOption example_doc ?P =
         \<lparr>opt_label = ''No issues on this page'',
          opt_value = doc_id example_doc @ '':'' @ page_id ?P @ '':none''\<rparr>"
    by blast
  with example_issue(3)
  have "realIssue example_doc ?P = None \<and>
       correctValue example_doc ?P = doc_id example_doc @ '':'' @ page_id ?P @ '':none'' \<and>
       correctOption example_doc ?P =
         \<lparr>opt_label = ''No issues on this page'',
          opt_value = doc_id example_doc @ '':'' @ page_id ?P @ '':none''\<rparr>"
    by blast
  then have n: "realIssue example_doc ?P = None"
    and nc: "correctValue example_doc ?P = ''D1:p1:none''"
    and no: "correctOption example_doc ?P =
         \<lparr>opt_label = ''No issues on this page'', opt_value = ''D1:p1:none''\<rparr>"
    unfolding example_issue(4,5) by simp_all
  have a: "pageKey example_doc ?P \<in> set (foundIssues audit_example)"
    unfolding example_values
    by (simp add: audit_example_def after_first_doc_def after_toggles_def after_call_def)
  have s: "pageSelections ?run ?K = Some (correctValue example_doc example_page)"
    unfolding audit_example_reached example_values(3) c
    by (simp add: audit_example_def after_first_doc_def after_toggles_def after_call_def)
  have cv: "opt_value ?CO = correctValue example_doc example_page"
    unfolding 2 c by simp
  have nv: "opt_value ?NO \<noteq> correctValue example_doc example_page"
    unfolding example_values(2) c by simp
  have ne: "(example_doc, ?P) \<noteq> (example_doc, example_page)"
    using example_values(5) by simp
  from g1 have 1: "?CO \<in> set (options (\<lambda>k. 0) example_doc example_page)"
    by (rule conjunct1)
  from g1 cv have 3: "?K \<in> set (foundIssues (selectOption example_doc example_page ?CO room_init))"
    by blast
  from g1 nv have 4: "?K \<notin> set (foundIssues
      (selectOption example_doc example_page ?NO
        (selectOption example_doc example_page ?CO room_init)))"
    by blast
  from g2 have "\<forall>(d', pg') \<in> set all_pages. (d', pg') \<noteq> (example_doc, example_page) \<longrightarrow>
       (pageKey d' pg' \<in> set (foundIssues (selectOption example_doc example_page ?NO audit_example))
        \<longleftrightarrow> pageKey d' pg' \<in> set (foundIssues audit_example))"
    by blast
  with example_first_page_mem ne a
  have 5: "pageKey example_doc ?P \<in> set (foundIssues
      (selectOption example_doc example_page ?NO audit_example))"
    by blast
  from g1 s have 6: "?K \<in> set (foundIssues ?run)" by blast
  from unit_rng_zero example_doc_mem example_page_mem example_first_page example_values(3)
    r c 1 2 n nc no 3 4 5 6
  show ?thesis by blast
qed

theorem foundIssues_no_duplicates_witness:
  "distinct (foundIssues audit_example) \<and>
   distinct (foundIssues
      (selectOption example_doc example_page (correctOption example_doc example_page)
         audit_example)) \<and>
   foundIssues
      (selectOption example_doc example_page (correctOption example_doc example_page)
         audit_example) = [''D1:p1'', ''D3:p1'', ''D1:p3'']"
proof -
  have d: "distinct (foundIssues audit_example)"
    by (simp add: audit_example_def after_first_doc_def after_toggles_def after_call_def)
  from foundIssues_no_duplicates[of _ _ _ audit_example example_doc example_page
      "correctOption example_doc example_page"] d
  have 1: "distinct (foundIssues
      (selectOption example_doc example_page (correctOption example_doc example_page)
         audit_example))" by blast
  have 2: "foundIssues
      (selectOption example_doc example_page (correctOption example_doc example_page)
         audit_example) = [''D1:p1'', ''D3:p1'', ''D1:p3'']"
    by (simp add: selectOption_found correctOption_value example_values
        audit_example_def after_first_doc_def after_toggles_def after_call_def)
  from d 1 2 show ?thesis by blast
qed

section \<open>The completion callbacks\<close>

lemma trim_examples:
  "\<not> trim_is_empty ''Ada Lovelace''"
  "\<not> trim_is_empty ''Grace Hopper''"
  "trim_is_empty ''  ''"
  "trim_is_empty []"
  by (simp_all add: trim_is_empty.simps leading_whitespace_def js_whitespace_def)

lemma cert_run_Cons:
  "snd (cert_run (e # es) name) =
     (case snd (cert_step e name) of None \<Rightarrow> [] | Some c \<Rightarrow> [c]) @
     snd (cert_run es (fst (cert_step e name)))"
  by (simp split: prod.splits)

lemma cert_run_alike:
  assumes "list_all2 same_up_to_name es es'" "trim_is_empty name = trim_is_empty name'"
  shows "snd (cert_run es name) = snd (cert_run es' name')"
  using assms
proof (induction es es' arbitrary: name name' rule: list_all2_induct)
  case Nil
  then show ?case by simp
next
  case (Cons e es e' es')
  show ?case
  proof (cases e)
    case (SetName s)
    with Cons.hyps(1) obtain s' where e': "e' = SetName s'"
      and t: "trim_is_empty s = trim_is_empty s'" by (cases e') auto
    from Cons.IH[of s s', OF t] SetName e' show ?thesis
      by (simp only: cert_run_Cons) (simp add: cert_step_def)
  next
    case (Finish ev)
    with Cons.hyps(1) have e': "e' = Finish ev" by (cases e') auto
    from Cons.IH[of name name', OF Cons.prems] Finish e' Cons.prems show ?thesis
      by (simp only: cert_run_Cons) (simp add: cert_step_def)
  qed
qed

lemma cert_run_callbacks:
  "cb \<in> set (snd (cert_run es name)) \<Longrightarrow> \<exists>ev. cb = onDone ev \<and> Finish ev \<in> set es"
proof (induction es arbitrary: name)
  case Nil
  then show ?case by simp
next
  case (Cons e es)
  show ?case
  proof (cases e)
    case (SetName s)
    with Cons.prems have "cb \<in> set (snd (cert_run es s))"
      by (simp only: cert_run_Cons) (simp add: cert_step_def)
    from Cons.IH[OF this] show ?thesis by auto
  next
    case (Finish ev)
    with Cons.prems have "cb = onDone ev \<or> cb \<in> set (snd (cert_run es name))"
      by (simp only: cert_run_Cons) (auto simp: cert_step_def split: if_splits)
    with Cons.IH[of name] Finish show ?thesis by auto
  qed
qed

lemma js_whitespace_length:
  assumes "w \<in> set js_whitespace"
  shows "w \<noteq> [] \<and>
    length w = (if (of_char (hd w) :: nat) < 128 then 1 else if hd w = CHR 0xC2 then 2 else 3)"
proof -
  have "list_all (\<lambda>w. w \<noteq> [] \<and>
    length w = (if (of_char (hd w) :: nat) < 128 then 1 else if hd w = CHR 0xC2 then 2 else 3))
    js_whitespace"
    by (simp add: js_whitespace_def)
  with assms show ?thesis by (simp add: list_all_iff)
qed

lemma leading_whitespace_append:
  assumes "w \<in> set js_whitespace"
  shows "leading_whitespace (w @ r) = length w"
proof (cases "find (\<lambda>v. take (length v) (w @ r) = v) js_whitespace")
  case None
  with assms show ?thesis by (auto simp: find_None_iff)
next
  case (Some v)
  then have v: "v \<in> set js_whitespace" and t: "take (length v) (w @ r) = v"
    by (auto simp: find_Some_iff)
  from js_whitespace_length[OF v] js_whitespace_length[OF assms]
  have nv: "v \<noteq> []" and nw: "w \<noteq> []" by simp_all
  from t nv have "hd v = hd (w @ r)" by (metis hd_take length_greater_0_conv)
  with nw have "hd v = hd w" by simp
  with js_whitespace_length[OF v] js_whitespace_length[OF assms]
  have "length v = length w" by simp
  with Some show ?thesis by (simp add: leading_whitespace_def)
qed

lemma leading_whitespace_split:
  assumes "leading_whitespace s \<noteq> 0"
  shows "\<exists>w \<in> set js_whitespace. s = w @ drop (leading_whitespace s) s"
proof (cases "find (\<lambda>v. take (length v) s = v) js_whitespace")
  case None
  with assms show ?thesis by (simp add: leading_whitespace_def)
next
  case (Some v)
  then have v: "v \<in> set js_whitespace" and t: "take (length v) s = v"
    by (auto simp: find_Some_iff)
  from Some have l: "leading_whitespace s = length v" by (simp add: leading_whitespace_def)
  have "s = take (length v) s @ drop (length v) s" by simp
  with t l have "s = v @ drop (leading_whitespace s) s" by simp
  with v show ?thesis by blast
qed

lemma trim_is_empty_concat:
  "set ws \<subseteq> set js_whitespace \<Longrightarrow> trim_is_empty (concat ws)"
proof (induction ws)
  case Nil
  show ?case by (simp add: trim_is_empty.simps)
next
  case (Cons w ws)
  then have w: "w \<in> set js_whitespace" and r: "trim_is_empty (concat ws)" by simp_all
  from js_whitespace_length[OF w] have nw: "w \<noteq> []" by simp
  from leading_whitespace_append[OF w, of "concat ws"] nw r show ?case
    by (subst trim_is_empty.simps) simp
qed

lemma trim_is_empty_split:
  "trim_is_empty s \<Longrightarrow> \<exists>ws. set ws \<subseteq> set js_whitespace \<and> s = concat ws"
proof (induction s rule: trim_is_empty.induct)
  case (1 s)
  show ?case
  proof (cases "s = []")
    case True
    then have "set [] \<subseteq> set js_whitespace \<and> s = concat []" by simp
    then show ?thesis by blast
  next
    case False
    with "1.prems" have l: "leading_whitespace s \<noteq> 0"
      and t: "trim_is_empty (drop (leading_whitespace s) s)"
      by (subst (asm) trim_is_empty.simps, simp split: if_splits)+
    from "1.IH"[OF False l t] obtain ws where ws: "set ws \<subseteq> set js_whitespace"
      and d: "drop (leading_whitespace s) s = concat ws" by blast
    from leading_whitespace_split[OF l] obtain w where w: "w \<in> set js_whitespace"
      and s: "s = w @ drop (leading_whitespace s) s" by blast
    from s d have "s = concat (w # ws)" by simp
    moreover from w ws have "set (w # ws) \<subseteq> set js_whitespace" by simp
    ultimately show ?thesis by blast
  qed
qed

lemma quiz_run_callbacks:
  assumes "cb \<in> set (snd (quiz_run es st))"
  shows "cb = onComplete (score (fst (quiz_run es st)))"
proof -
  have "quiz_run es st = (fst (quiz_run es st), snd (quiz_run es st))" by simp
  from quiz_run_gen[OF this] assms show ?thesis by blast
qed

text \<open>
  Claim C3 says that the completion callback of the Certificate stage carries the
  learner's name.  It does not: the \<open>Finish\<close> button calls \<open>onDone\<close> with the event of
  the click, and \<open>App\<close> drops the argument and moves to the end screen.  Two sessions
  with different names and the same click make the same call.
\<close>

theorem certificate_onDone_without_name:
  "cert_run [SetName ''Ada Lovelace'', Finish click_example] cert_init =
     (''Ada Lovelace'', [onDone click_example]) \<and>
   cert_run [SetName ''Grace Hopper'', Finish click_example] cert_init =
     (''Grace Hopper'', [onDone click_example]) \<and>
   app_callback (onDone click_example) \<lparr>stage = stage_certificate, app_score = 3\<rparr> =
     \<lparr>stage = stage_done, app_score = 3\<rparr>"
  by (simp add: cert_step_def trim_examples app_callback_def)

text \<open>
  Claim C3, amended: the completion callback of the Certificate stage does not carry the
  learner's name.  The calls a session of the certificate makes depend on the names
  typed only through their being blank or not: two sessions that are the same up to the
  names make the same calls.  Every call is \<open>onDone\<close> with the event of a click on
  \<open>Finish\<close>; a click makes the call exactly when the trimmed name is not empty, that is
  when the name is not a sequence of white-space characters; and \<open>App\<close> moves from the
  certificate to the end screen whatever the event is.  The completion callback of the
  Quiz stage carries the score: every call a session of the quiz makes is
  \<open>onComplete\<close> with the score, the button of the summary page makes it, and \<open>App\<close>
  stores the score before it moves to the room.
\<close>

theorem stage_completion_payloads:
  "(list_all2 same_up_to_name es es' \<and> (trim_is_empty name \<longleftrightarrow> trim_is_empty name') \<longrightarrow>
      snd (cert_run es name) = snd (cert_run es' name')) \<and>
   (\<forall>cb \<in> set (snd (cert_run es name)). \<exists>ev. cb = onDone ev \<and> Finish ev \<in> set es) \<and>
   cert_step (Finish ev) name = (name, if trim_is_empty name then None else Some (onDone ev)) \<and>
   cert_step (SetName s) name = (s, None) \<and>
   (trim_is_empty name \<longleftrightarrow> (\<exists>ws. set ws \<subseteq> set js_whitespace \<and> name = concat ws)) \<and>
   app_callback (onDone ev) (st\<lparr>stage := stage_certificate\<rparr>) = st\<lparr>stage := stage_done\<rparr> \<and>
   (\<forall>cb \<in> set (snd (quiz_run qes qst)). cb = onComplete (score (fst (quiz_run qes qst)))) \<and>
   (step qst > length MCQS \<longrightarrow> quiz_step Enter qst = (qst, Some (onComplete (score qst)))) \<and>
   app_callback (onComplete n) (st\<lparr>stage := stage_quiz\<rparr>) =
     st\<lparr>app_score := n, stage := stage_room\<rparr>"
proof (intro conjI)
  show "list_all2 same_up_to_name es es' \<and> (trim_is_empty name \<longleftrightarrow> trim_is_empty name') \<longrightarrow>
      snd (cert_run es name) = snd (cert_run es' name')"
    using cert_run_alike by blast
  show "\<forall>cb \<in> set (snd (cert_run es name)). \<exists>ev. cb = onDone ev \<and> Finish ev \<in> set es"
    using cert_run_callbacks by blast
  show "cert_step (Finish ev) name =
      (name, if trim_is_empty name then None else Some (onDone ev))"
    by (simp add: cert_step_def)
  show "cert_step (SetName s) name = (s, None)"
    by (simp add: cert_step_def)
  show "trim_is_empty name \<longleftrightarrow> (\<exists>ws. set ws \<subseteq> set js_whitespace \<and> name = concat ws)"
    using trim_is_empty_split trim_is_empty_concat by blast
  show "app_callback (onDone ev) (st\<lparr>stage := stage_certificate\<rparr>) = st\<lparr>stage := stage_done\<rparr>"
    by (simp add: app_callback_def)
  show "\<forall>cb \<in> set (snd (quiz_run qes qst)). cb = onComplete (score (fst (quiz_run qes qst)))"
    using quiz_run_callbacks by blast
  show "step qst > length MCQS \<longrightarrow> quiz_step Enter qst = (qst, Some (onComplete (score qst)))"
    by (simp add: quiz_step_summary)
  show "app_callback (onComplete n) (st\<lparr>stage := stage_quiz\<rparr>) =
     st\<lparr>app_score := n, stage := stage_room\<rparr>"
    by (simp add: app_callback_def)
qed

theorem stage_completion_payloads_witness:
  "list_all2 same_up_to_name
     [SetName ''Ada Lovelace'', Finish click_example]
     [SetName ''Grace Hopper'', Finish click_example] \<and>
   snd (cert_run [SetName ''Ada Lovelace'', Finish click_example] cert_init) =
     snd (cert_run [SetName ''Grace Hopper'', Finish click_example] cert_init) \<and>
   onDone click_example \<in> set (snd (cert_run [SetName ''Ada Lovelace'', Finish click_example] cert_init)) \<and>
   trim_is_empty ''  '' \<and>
   cert_step (Finish click_example) ''  '' = (''  '', None) \<and>
   cert_step (Finish click_example) ''Ada Lovelace'' = (''Ada Lovelace'', Some (onDone click_example)) \<and>
   step summary_example > length MCQS \<and>
   quiz_step Enter summary_example = (summary_example, Some (onComplete 3)) \<and>
   snd (quiz_run [Enter] summary_example) = [onComplete 3]"
proof -
  let ?a = "[SetName ''Ada Lovelace'', Finish click_example]"
  let ?g = "[SetName ''Grace Hopper'', Finish click_example]"
  note t = stage_completion_payloads[of ?a ?g cert_init cert_init click_example _ _ _ summary_example]
  have 1: "list_all2 same_up_to_name ?a ?g" by (simp add: trim_examples)
  with t have 2: "snd (cert_run ?a cert_init) = snd (cert_run ?g cert_init)" by blast
  have 3: "onDone click_example \<in> set (snd (cert_run ?a cert_init))"
    by (simp add: cert_step_def trim_examples)
  have "set [[CHR 0x20], [CHR 0x20]] \<subseteq> set js_whitespace \<and> ''  '' = concat [[CHR 0x20], [CHR 0x20]]"
    by (simp add: js_whitespace_def)
  then have "\<exists>ws. set ws \<subseteq> set js_whitespace \<and> ''  '' = concat ws" by blast
  with stage_completion_payloads[of _ _ "''  ''" _ click_example]
  have 4: "trim_is_empty ''  ''"
    and 5: "cert_step (Finish click_example) ''  '' = (''  '', None)" by simp_all
  from stage_completion_payloads[of _ _ "''Ada Lovelace''" _ click_example] trim_examples(1)
  have 6: "cert_step (Finish click_example) ''Ada Lovelace'' =
      (''Ada Lovelace'', Some (onDone click_example))" by simp
  have s: "step summary_example > length MCQS" "score summary_example = 3"
    by (simp_all add: summary_example_def length_MCQS)
  with t have 7: "quiz_step Enter summary_example = (summary_example, Some (onComplete 3))"
    by simp
  then have 8: "snd (quiz_run [Enter] summary_example) = [onComplete 3]" by simp
  from 1 2 3 4 5 6 s(1) 7 8 show ?thesis by blast
qed

end
